theory Spec2Isabelle
  imports Complex_Main "HOL-Library.AList" "HOL-Library.Word"
begin

section \<open>Magnetic dip and declination: the computation of \<open>calculate_magnetic_parameters\<close>\<close>

text \<open>
  The script reads a table of magnetometer samples (columns \<open>Time_s\<close>, \<open>Bx_uT\<close>,
  \<open>By_uT\<close>, \<open>Bz_uT\<close>, \<open>Absolute_field_uT\<close>), derives the horizontal field, the dip
  angle and the declination of every sample, and smooths three columns with a
  Savitzky-Golay filter whose window is chosen from the number of rows.
\<close>

subsection \<open>Window selection (lines 48-55 and 65-74)\<close>

text \<open>
  \<open>n = len(df)\<close> is a non-negative integer, so Python's \<open>//\<close> and \<open>%\<close> are
  \<open>div\<close> and \<open>mod\<close> on \<open>nat\<close>.
  \<^verbatim>\<open>
  window_length = min(21, n // 4 if n // 4 % 2 == 1 else n // 4 + 1)
  window_length = max(5, window_length)
  \<close>
\<close>

definition window_length :: "nat \<Rightarrow> nat" where
  "window_length n =
     max 5 (min 21 (if (n div 4) mod 2 = 1 then n div 4 else n div 4 + 1))"

text \<open>
  The three ways through the \<open>if n > 10: ... if window_length >= 5: ... else: ... else: ...\<close>
  statement: the filter is applied with a window, or one of the two branches that copy
  the source columns is taken.
\<close>

datatype branch = Smoothed nat | WindowTooSmall | TooFewPoints

definition select_branch :: "nat \<Rightarrow> branch" where
  "select_branch n =
     (if n > 10 then
        (let w = window_length n in
         if w \<ge> 5 then Smoothed w else WindowTooSmall)
      else TooFewPoints)"

text \<open>
  The window policy as the specification words it: the candidate \<open>n // 4\<close> is forced odd
  and raised to at least 5, with no upper cap.
\<close>

definition spec_window :: "nat \<Rightarrow> nat" where
  "spec_window n =
     max (if odd (n div 4) then n div 4 else n div 4 + 1) 5"

subsection \<open>Tables\<close>

text \<open>
  A cell of the table is a 64-bit integer, a float, the missing-value marker (pandas'
  NaN) or, before the numeric coercion, a string.  Floats are modelled as real numbers:
  rounding, infinities and signed zeros of 64-bit floats are not represented.  Integers
  are machine integers, whose arithmetic wraps around.
\<close>

datatype cell = I64 "64 word" | Num real | NaN | Text string

type_synonym series = "cell list"

text \<open>
  A data frame: the length of its index and its columns in order.  \<open>len(df)\<close> is
  \<open>nrows\<close>.
\<close>

record frame =
  nrows :: nat
  cols :: "(string \<times> series) list"

datatype error = KeyError string | TypeError | ValueError

definition and_then :: "error + 'a \<Rightarrow> ('a \<Rightarrow> error + 'b) \<Rightarrow> error + 'b" where
  "and_then r f = (case r of Inl e \<Rightarrow> Inl e | Inr x \<Rightarrow> f x)"

text \<open>\<open>df[k]\<close> raises \<open>KeyError\<close> for a column that is not there.\<close>

definition getitem :: "frame \<Rightarrow> string \<Rightarrow> error + series" where
  "getitem df k = (case map_of (cols df) k of None \<Rightarrow> Inl (KeyError k) | Some c \<Rightarrow> Inr c)"

text \<open>\<open>df[k] = c\<close> replaces the column in place when it exists and appends it otherwise.\<close>

definition setitem :: "frame \<Rightarrow> string \<Rightarrow> series \<Rightarrow> frame" where
  "setitem df k c = df\<lparr>cols := AList.update k c (cols df)\<rparr>"

subsection \<open>Numeric coercion (lines 34-35)\<close>

text \<open>
  \<open>pd.to_numeric(column, errors='coerce')\<close>: a number stays, a string that parses
  becomes its number, any other string becomes NaN.  The result is an integer column when
  every cell is an integer, and a float column otherwise, its integers cast to float: an
  integer column is not made a float column.  The parser of numeric literals belongs to
  pandas and is a parameter; it tells an integer literal from a float literal.
\<close>

datatype literal = IntLit "64 word" | FloatLit real

type_synonym parser = "string \<Rightarrow> literal option"

fun coerce :: "parser \<Rightarrow> cell \<Rightarrow> cell" where
  "coerce parse (I64 w) = I64 w"
| "coerce parse (Num r) = Num r"
| "coerce parse NaN = NaN"
| "coerce parse (Text s) =
     (case parse s of Some (IntLit w) \<Rightarrow> I64 w | Some (FloatLit r) \<Rightarrow> Num r | None \<Rightarrow> NaN)"

fun is_int :: "cell \<Rightarrow> bool" where
  "is_int (I64 w) = True"
| "is_int (Num r) = False"
| "is_int NaN = False"
| "is_int (Text s) = False"

definition int_column :: "series \<Rightarrow> bool" where
  "int_column c \<longleftrightarrow> c \<noteq> [] \<and> list_all is_int c"

fun to_float_cell :: "cell \<Rightarrow> cell" where
  "to_float_cell (I64 w) = Num (real_of_int (sint w))"
| "to_float_cell (Num r) = Num r"
| "to_float_cell NaN = NaN"
| "to_float_cell (Text s) = Text s"

definition to_numeric :: "parser \<Rightarrow> series \<Rightarrow> series" where
  "to_numeric parse c =
     (let cs = map (coerce parse) c in if int_column cs then cs else map to_float_cell cs)"

definition raw_columns :: "string list" where
  "raw_columns = [''Time_s'', ''Bx_uT'', ''By_uT'', ''Bz_uT'', ''Absolute_field_uT'']"

fun coerce_columns :: "parser \<Rightarrow> string list \<Rightarrow> frame \<Rightarrow> error + frame" where
  "coerce_columns parse [] df = Inr df"
| "coerce_columns parse (k # ks) df =
     and_then (getitem df k) (\<lambda>c. coerce_columns parse ks (setitem df k (to_numeric parse c)))"

subsection \<open>Arithmetic on columns\<close>

text \<open>
  A float is a real number or NaN (\<open>None\<close>).  Arithmetic reads a column as an array of
  one type: 64-bit integers when the column is an integer column, floats otherwise;
  Python raises \<open>TypeError\<close> when a cell is a string.  The columns are read after the
  coercion, when each column has one type.
\<close>

type_synonym float = "real option"

datatype array = Int64 "64 word list" | Float64 "float list"

fun as_float :: "cell \<Rightarrow> error + float" where
  "as_float (I64 w) = Inr (Some (real_of_int (sint w)))"
| "as_float (Num r) = Inr (Some r)"
| "as_float NaN = Inr None"
| "as_float (Text s) = Inl TypeError"

fun as_floats :: "series \<Rightarrow> error + float list" where
  "as_floats [] = Inr []"
| "as_floats (c # cs) =
     and_then (as_float c) (\<lambda>x. and_then (as_floats cs) (\<lambda>xs. Inr (x # xs)))"

fun as_int :: "cell \<Rightarrow> 64 word option" where
  "as_int (I64 w) = Some w"
| "as_int (Num r) = None"
| "as_int NaN = None"
| "as_int (Text s) = None"

definition as_array :: "series \<Rightarrow> error + array" where
  "as_array c =
     (if int_column c then Inr (Int64 (List.map_filter as_int c))
      else and_then (as_floats c) (\<lambda>xs. Inr (Float64 xs)))"

definition array_column :: "frame \<Rightarrow> string \<Rightarrow> error + array" where
  "array_column df k = and_then (getitem df k) as_array"

fun of_float :: "float \<Rightarrow> cell" where
  "of_float (Some r) = Num r"
| "of_float None = NaN"

text \<open>An integer array is cast to floats where numpy needs floats.\<close>

fun to_float64 :: "array \<Rightarrow> float list" where
  "to_float64 (Int64 ws) = map (\<lambda>w. Some (real_of_int (sint w))) ws"
| "to_float64 (Float64 xs) = xs"

text \<open>
  Modelled from the spec: the numpy primitives \<open>**2\<close>, \<open>+\<close>, \<open>np.sqrt\<close>,
  \<open>np.arctan2\<close> and \<open>np.degrees\<close> are not part of the repository.  On floats they
  are the real-valued functions the specification names (the two-argument arctangent
  with \<open>atan2(0, 0) = 0\<close>, values in \<open>(-pi, pi]\<close>), each returning NaN when an argument is
  NaN, and the square root returning NaN below zero.  On integer arrays \<open>**2\<close> and \<open>+\<close>
  stay in 64-bit integers and wrap around; every other operation casts to float first.
\<close>

definition np_square :: "float \<Rightarrow> float" where
  "np_square a = map_option (\<lambda>r. r ^ 2) a"

definition np_add :: "float \<Rightarrow> float \<Rightarrow> float" where
  "np_add a b = (case (a, b) of (Some x, Some y) \<Rightarrow> Some (x + y) | _ \<Rightarrow> None)"

definition np_sqrt :: "float \<Rightarrow> float" where
  "np_sqrt a = (case a of Some r \<Rightarrow> (if r < 0 then None else Some (sqrt r)) | None \<Rightarrow> None)"

definition arctan2 :: "real \<Rightarrow> real \<Rightarrow> real" where
  "arctan2 y x =
     (if 0 < x then arctan (y / x)
      else if x < 0 then (if 0 \<le> y then arctan (y / x) + pi else arctan (y / x) - pi)
      else if 0 < y then pi / 2
      else if y < 0 then - (pi / 2)
      else 0)"

definition np_arctan2 :: "float \<Rightarrow> float \<Rightarrow> float" where
  "np_arctan2 a b = (case (a, b) of (Some y, Some x) \<Rightarrow> Some (arctan2 y x) | _ \<Rightarrow> None)"

definition degrees :: "real \<Rightarrow> real" where
  "degrees r = r * 180 / pi"

definition radians :: "real \<Rightarrow> real" where
  "radians d = d * pi / 180"

definition np_degrees :: "float \<Rightarrow> float" where
  "np_degrees a = map_option degrees a"

fun array_square :: "array \<Rightarrow> array" where
  "array_square (Int64 ws) = Int64 (map (\<lambda>w. w * w) ws)"
| "array_square (Float64 xs) = Float64 (map np_square xs)"

fun array_add :: "array \<Rightarrow> array \<Rightarrow> array" where
  "array_add (Int64 vs) (Int64 ws) = Int64 (map2 (+) vs ws)"
| "array_add (Int64 vs) (Float64 ys) = Float64 (map2 np_add (to_float64 (Int64 vs)) ys)"
| "array_add (Float64 xs) (Int64 ws) = Float64 (map2 np_add xs (to_float64 (Int64 ws)))"
| "array_add (Float64 xs) (Float64 ys) = Float64 (map2 np_add xs ys)"

subsection \<open>Angle derivation (lines 37-45)\<close>

text \<open>
  \<^verbatim>\<open>
  df['H_uT'] = np.sqrt(df['Bx_uT']**2 + df['By_uT']**2)
  df['Dip_Angle_deg'] = np.degrees(np.arctan2(df['Bz_uT'], df['H_uT']))
  df['Declination_deg'] = np.degrees(np.arctan2(df['By_uT'], df['Bx_uT']))
  \<close>
  The operations work element by element on columns of the same index.
  \<open>derive_angles\<close> is the first part of the body of \<open>calculate_magnetic_parameters\<close>
  (lines 34-45): the coercion loop and the three assignments, each reading the frame as
  the statements before it left it.
\<close>

definition horizontal :: "array \<Rightarrow> array \<Rightarrow> float list" where
  "horizontal xs ys = map np_sqrt (to_float64 (array_add (array_square xs) (array_square ys)))"

definition angle_deg :: "array \<Rightarrow> array \<Rightarrow> float list" where
  "angle_deg ys xs = map np_degrees (map2 np_arctan2 (to_float64 ys) (to_float64 xs))"

definition derive_angles :: "parser \<Rightarrow> frame \<Rightarrow> error + frame" where
  "derive_angles parse df =
     and_then (coerce_columns parse raw_columns df) (\<lambda>df.
     and_then (array_column df ''Bx_uT'') (\<lambda>b_x.
     and_then (array_column df ''By_uT'') (\<lambda>b_y.
     let df = setitem df ''H_uT'' (map of_float (horizontal b_x b_y)) in
     and_then (array_column df ''Bz_uT'') (\<lambda>b_z.
     and_then (array_column df ''H_uT'') (\<lambda>h.
     let df = setitem df ''Dip_Angle_deg'' (map of_float (angle_deg b_z h)) in
     and_then (array_column df ''By_uT'') (\<lambda>b_y.
     and_then (array_column df ''Bx_uT'') (\<lambda>b_x.
     Inr (setitem df ''Declination_deg'' (map of_float (angle_deg b_y b_x))))))))))"

subsection \<open>Smoothing (lines 47-74)\<close>

text \<open>
  Modelled from the spec: \<open>scipy.signal.savgol_filter\<close> is library code outside the
  repository.  It takes the values of a column (cast to float), the window length and the
  polynomial order.  As the specification says, it fails when the window is longer than
  the series.  It also fails, with \<open>ValueError\<close>, when a NaN lies among the first or the
  last \<open>window_length\<close> values, which its polynomial fit of the two edges reads.
  Otherwise it returns an array; the numbers in it are computed by a parameter, the core
  of the filter.  The code calls it without catching anything, so its failure is the
  failure of \<open>calculate_magnetic_parameters\<close>.

  \<open>smooth\<close> is the second part of the body of \<open>calculate_magnetic_parameters\<close>
  (lines 47-74); the two copying branches assign the columns themselves.  The frame is
  updated in place by the code; the model returns the new frame, and no frame when an
  exception leaves the function.
\<close>

type_synonym core = "float list \<Rightarrow> nat \<Rightarrow> nat \<Rightarrow> float list"

definition edge_nan :: "float list \<Rightarrow> nat \<Rightarrow> bool" where
  "edge_nan xs w \<longleftrightarrow> None \<in> set (take w xs) \<or> None \<in> set (drop (length xs - w) xs)"

definition savgol_filter :: "core \<Rightarrow> float list \<Rightarrow> nat \<Rightarrow> nat \<Rightarrow> error + float list" where
  "savgol_filter fit xs w p =
     (if length xs < w then Inl ValueError
      else if edge_nan xs w then Inl ValueError
      else Inr (fit xs w p))"

definition float_column :: "frame \<Rightarrow> string \<Rightarrow> error + float list" where
  "float_column df k = and_then (array_column df k) (\<lambda>a. Inr (to_float64 a))"

definition filter_columns :: "core \<Rightarrow> nat \<Rightarrow> frame \<Rightarrow> error + frame" where
  "filter_columns fit w df =
     and_then (float_column df ''Dip_Angle_deg'') (\<lambda>dip.
     and_then (savgol_filter fit dip w 2) (\<lambda>dip_smooth.
     let df = setitem df ''Dip_Angle_smooth'' (map of_float dip_smooth) in
     and_then (float_column df ''Declination_deg'') (\<lambda>dec.
     and_then (savgol_filter fit dec w 2) (\<lambda>dec_smooth.
     let df = setitem df ''Declination_smooth'' (map of_float dec_smooth) in
     and_then (float_column df ''Bz_uT'') (\<lambda>b_z.
     and_then (savgol_filter fit b_z w 2) (\<lambda>bz_smooth.
     Inr (setitem df ''Bz_smooth'' (map of_float bz_smooth))))))))"

definition copy_columns :: "frame \<Rightarrow> error + frame" where
  "copy_columns df =
     and_then (getitem df ''Dip_Angle_deg'') (\<lambda>dip.
     let df = setitem df ''Dip_Angle_smooth'' dip in
     and_then (getitem df ''Declination_deg'') (\<lambda>dec.
     let df = setitem df ''Declination_smooth'' dec in
     and_then (getitem df ''Bz_uT'') (\<lambda>b_z.
     Inr (setitem df ''Bz_smooth'' b_z))))"

definition smooth :: "core \<Rightarrow> frame \<Rightarrow> error + frame" where
  "smooth fit df =
     (case select_branch (nrows df) of
        Smoothed w \<Rightarrow> filter_columns fit w df
      | WindowTooSmall \<Rightarrow> copy_columns df
      | TooFewPoints \<Rightarrow> copy_columns df)"

definition calculate_magnetic_parameters :: "parser \<Rightarrow> core \<Rightarrow> frame \<Rightarrow> error + frame" where
  "calculate_magnetic_parameters parse fit df =
     and_then (derive_angles parse df) (smooth fit)"

text \<open>
  Modelled from the spec: the core of the library's filter for the mode the code uses
  (\<open>interp\<close>), the local polynomial regression of the specification.  An output away
  from the two edges is the correlation of the series with the \<open>w\<close> coefficients of the
  window centred on it: a sum of products of floats, which is NaN as soon as one value
  under the window is NaN.  The first and the last \<open>w div 2\<close> outputs are values of the
  polynomials fitted to the first and to the last \<open>w\<close> values.  The coefficients and the
  fitted polynomials are parameters.  The filter calls the core only when the two edge
  windows hold no NaN; the core is completed with NaN otherwise.
\<close>

fun weighted_sum :: "(nat \<Rightarrow> real) \<Rightarrow> nat \<Rightarrow> float list \<Rightarrow> float" where
  "weighted_sum c k [] = Some 0"
| "weighted_sum c k (x # xs) =
     np_add (map_option (\<lambda>r. c k * r) x) (weighted_sum c (Suc k) xs)"

definition fit_edge :: "(real list \<Rightarrow> nat \<Rightarrow> nat \<Rightarrow> real) \<Rightarrow> float list \<Rightarrow> nat \<Rightarrow> nat list \<Rightarrow> float list"
  where
  "fit_edge polyval xs p js =
     (case those xs of
        None \<Rightarrow> map (\<lambda>j. None) js
      | Some ys \<Rightarrow> map (\<lambda>j. Some (polyval ys p j)) js)"

definition savgol_core ::
  "(nat \<Rightarrow> nat \<Rightarrow> nat \<Rightarrow> real) \<Rightarrow> (real list \<Rightarrow> nat \<Rightarrow> nat \<Rightarrow> real) \<Rightarrow> core" where
  "savgol_core coeffs polyval xs w p =
     (let n = length xs; h = w div 2 in
      fit_edge polyval (take w xs) p [0..<h]
      @ map (\<lambda>j. weighted_sum (coeffs w p) 0 (take w (drop (j - h) xs))) [h..<n - h]
      @ fit_edge polyval (drop (n - w) xs) p [w - h..<w])"

subsection \<open>Notions used in the statements\<close>

text \<open>The float value of a numeric cell, and the float that the coercion gives for a cell.\<close>

fun cell_value :: "cell \<Rightarrow> float" where
  "cell_value (I64 w) = Some (real_of_int (sint w))"
| "cell_value (Num r) = Some r"
| "cell_value NaN = None"
| "cell_value (Text s) = None"

definition numeric_value :: "parser \<Rightarrow> cell \<Rightarrow> float" where
  "numeric_value parse x = cell_value (coerce parse x)"

text \<open>The frame has the five raw columns, and every column is as long as the index.\<close>

definition has_columns :: "frame \<Rightarrow> string list \<Rightarrow> bool" where
  "has_columns df ks = list_all (\<lambda>k. map_of (cols df) k \<noteq> None) ks"

definition aligned :: "frame \<Rightarrow> bool" where
  "aligned df = list_all (\<lambda>kc. length (snd kc) = nrows df) (cols df)"

definition colnames :: "frame \<Rightarrow> string list" where
  "colnames df = map fst (cols df)"

text \<open>
  The integer arithmetic of line 38 is exact for a sample with values \<open>x\<close> and \<open>y\<close> in the
  coerced columns \<open>cx\<close> and \<open>cy\<close>: a square taken in 64-bit integers, and the sum of two
  such squares, stay below \<open>2^63\<close>.  Nothing is asked of a float column.
\<close>

definition squares_fit :: "series \<Rightarrow> series \<Rightarrow> real \<Rightarrow> real \<Rightarrow> bool" where
  "squares_fit cx cy x y \<longleftrightarrow>
     (int_column cx \<longrightarrow> x\<^sup>2 < 2 ^ 63) \<and> (int_column cy \<longrightarrow> y\<^sup>2 < 2 ^ 63)
   \<and> (int_column cx \<and> int_column cy \<longrightarrow> x\<^sup>2 + y\<^sup>2 < 2 ^ 63)"

text \<open>
  What the statements ask of the core of the filter: it keeps the length of a series that
  is at least as long as the window.
\<close>

definition length_preserving :: "core \<Rightarrow> bool" where
  "length_preserving fit \<longleftrightarrow> (\<forall>xs w p. w \<le> length xs \<longrightarrow> length (fit xs w p) = length xs)"

text \<open>
  The names of the columns that the two stages add, and the columns that hold numbers of
  one type or missing values only.
\<close>

definition derived_columns :: "string list" where
  "derived_columns = [''H_uT'', ''Dip_Angle_deg'', ''Declination_deg'']"

definition smoothed_columns :: "string list" where
  "smoothed_columns = [''Dip_Angle_smooth'', ''Declination_smooth'', ''Bz_smooth'']"

fun is_float :: "cell \<Rightarrow> bool" where
  "is_float (I64 w) = False"
| "is_float (Num r) = True"
| "is_float NaN = True"
| "is_float (Text s) = False"

definition numeric_column :: "series \<Rightarrow> bool" where
  "numeric_column c \<longleftrightarrow> list_all is_int c \<or> list_all is_float c"

text \<open>
  A missing cell of the column \<open>c\<close> lies under the window of \<open>w\<close> samples centred on
  sample \<open>i\<close>.
\<close>

definition missing_near :: "series \<Rightarrow> nat \<Rightarrow> nat \<Rightarrow> bool" where
  "missing_near c w i \<longleftrightarrow> NaN \<in> set (take w (drop (i - w div 2) c))"

text \<open>The horizontal field as the specification writes it.\<close>

definition hypot :: "real \<Rightarrow> real \<Rightarrow> real" where
  "hypot x y = sqrt (x\<^sup>2 + y\<^sup>2)"

subsection \<open>Concrete inputs\<close>

text \<open>
  A parser for the closed examples: it reads a non-empty string of decimal digits, as an
  integer when it is below \<open>2^63\<close>, and rejects every other string.  It stands for the
  parser of pandas on such strings only.
\<close>

definition decimal_digit :: "char \<Rightarrow> nat option" where
  "decimal_digit c =
     map_of [(CHR ''0'', 0), (CHR ''1'', 1), (CHR ''2'', 2), (CHR ''3'', 3), (CHR ''4'', 4),
             (CHR ''5'', 5), (CHR ''6'', 6), (CHR ''7'', 7), (CHR ''8'', 8), (CHR ''9'', 9)] c"

fun digits_value :: "nat \<Rightarrow> string \<Rightarrow> nat option" where
  "digits_value acc [] = Some acc"
| "digits_value acc (c # cs) =
     (case decimal_digit c of None \<Rightarrow> None | Some d \<Rightarrow> digits_value (10 * acc + d) cs)"

definition unsigned_literal :: parser where
  "unsigned_literal s =
     (if s = [] then None
      else map_option (\<lambda>n. if n < 2 ^ 63 then IntLit (of_nat n) else FloatLit (real n))
             (digits_value 0 s))"

text \<open>A core for the closed examples: it returns its input.\<close>

definition unfiltered :: core where
  "unfiltered xs w p = xs"

text \<open>
  Parameters for a core in the closed examples: equal coefficients (a moving average), and
  an edge polynomial that passes through the samples.
\<close>

definition flat_coeffs :: "nat \<Rightarrow> nat \<Rightarrow> nat \<Rightarrow> real" where
  "flat_coeffs w p k = 1 / real w"

definition through_samples :: "real list \<Rightarrow> nat \<Rightarrow> nat \<Rightarrow> real" where
  "through_samples ys p j = ys ! j"

text \<open>
  Two samples in float columns: the field is vertical in the first (\<open>bx = by = 0\<close>), and
  the total-field cell of the second is not a number.
\<close>

definition two_samples :: frame where
  "two_samples =
     \<lparr>nrows = 2,
      cols = [(''Time_s'', [Num 0, Num 1]),
              (''Bx_uT'', [Num 0, Num 20]),
              (''By_uT'', [Num 0, Num 0]),
              (''Bz_uT'', [Num 40, Num 40]),
              (''Absolute_field_uT'', [Num 40, Text ''n/a''])]\<rparr>"

text \<open>
  Eleven samples in float columns, enough for the filter to run, with a given cell for
  \<open>bx\<close> of sample 5 and for \<open>bz\<close> of sample 7.  With a window of 5 the filter fits its
  edges to samples 0 to 4 and 6 to 10.
\<close>

definition eleven_rows :: "cell \<Rightarrow> cell \<Rightarrow> frame" where
  "eleven_rows b5 z7 =
     \<lparr>nrows = 11,
      cols = [(''Time_s'', [Num 0, Num 1, Num 2, Num 3, Num 4, Num 5, Num 6, Num 7, Num 8,
                           Num 9, Num 10]),
              (''Bx_uT'', [Num 20, Num 20, Num 20, Num 20, Num 20, b5, Num 20, Num 20,
                           Num 20, Num 20, Num 20]),
              (''By_uT'', [Num 0, Num 0, Num 0, Num 0, Num 0, Num 0, Num 0, Num 0, Num 0,
                           Num 0, Num 0]),
              (''Bz_uT'', [Num 40, Num 40, Num 40, Num 40, Num 40, Num 40, Num 40, z7, Num 40,
                           Num 40, Num 40]),
              (''Absolute_field_uT'', [Num 45, Num 45, Num 45, Num 45, Num 45, Num 45, Num 45,
                           Num 45, Num 45, Num 45, Num 45])]\<rparr>"

text \<open>
  Two samples in integer columns, as a sheet of whole numbers gives them: the square of
  \<open>bx\<close> of the first does not fit 64 bits.
\<close>

definition integer_samples :: frame where
  "integer_samples =
     \<lparr>nrows = 2,
      cols = [(''Time_s'', [I64 0, I64 1]),
              (''Bx_uT'', [I64 3037000500, I64 20]),
              (''By_uT'', [I64 0, I64 0]),
              (''Bz_uT'', [I64 40, I64 40]),
              (''Absolute_field_uT'', [I64 45, I64 45])]\<rparr>"

section \<open>Properties of the window selection\<close>

lemma window_length_bounds: "5 \<le> window_length n \<and> window_length n \<le> 21"
  by (simp add: window_length_def)
lemma window_length_odd: "10 < n \<Longrightarrow> odd (window_length n)"
  unfolding window_length_def max_def min_def
  by (auto simp: odd_iff_mod_2_eq_one)
lemma window_length_le: "10 < n \<Longrightarrow> window_length n \<le> n"
proof -
  assume "10 < n"
  have d: "n div 4 \<le> n" by simp
  have e: "n div 4 + 1 \<le> n" using \<open>10 < n\<close> by linarith
  show ?thesis unfolding window_length_def using d e \<open>10 < n\<close> by (simp add: min_def)
qed
lemma window_length_capped: "window_length n = min 21 (spec_window n)"
  unfolding window_length_def spec_window_def
  by (simp add: odd_iff_mod_2_eq_one max_def min_def)
lemma select_branch_eq: "select_branch n = (if 10 < n then Smoothed (window_length n) else TooFewPoints)"
  using window_length_bounds [of n] by (simp add: select_branch_def Let_def)

lemma window_length_200: "window_length 200 = 21"
  by (simp add: window_length_def)

lemma spec_window_200: "spec_window 200 = 51"
  by (simp add: spec_window_def)

section \<open>Frames and columns\<close>

lemma and_then_Inr [simp]: "and_then (Inr x) f = f x"
  by (simp add: and_then_def)

lemma and_then_Inl [simp]: "and_then (Inl e) f = Inl e"
  by (simp add: and_then_def)

lemma getitem_setitem [simp]:
  "getitem (setitem df k c) k' = (if k' = k then Inr c else getitem df k')"
  by (simp add: getitem_def setitem_def AList.update_conv')

lemma nrows_setitem [simp]: "nrows (setitem df k c) = nrows df"
  by (simp add: setitem_def)

lemma setitem_triv: "getitem df k = Inr c \<Longrightarrow> setitem df k c = df"
  by (simp add: getitem_def setitem_def AList.update_triv split: option.splits)

lemma getitem_Inr_iff: "(\<exists>c. getitem df k = Inr c) \<longleftrightarrow> map_of (cols df) k \<noteq> None"
  by (auto simp: getitem_def split: option.splits)

lemma getitem_map_of: "getitem df k = Inr c \<longleftrightarrow> map_of (cols df) k = Some c"
  by (auto simp: getitem_def split: option.splits)

lemma colnames_setitem:
  "colnames (setitem df k c) = (if k \<in> set (colnames df) then colnames df else colnames df @ [k])"
  by (simp add: colnames_def setitem_def AList.update_keys)

lemma map_of_setitem:
  "map_of (cols (setitem df k c)) k' = (if k' = k then Some c else map_of (cols df) k')"
  by (simp add: setitem_def AList.update_conv')

lemma aligned_setitem: "aligned df \<Longrightarrow> length c = nrows df \<Longrightarrow> aligned (setitem df k c)"
proof -
  assume a: "aligned df" and l: "length c = nrows df"
  have "\<And>al. list_all (\<lambda>kc. length (snd kc) = nrows df) al
          \<Longrightarrow> list_all (\<lambda>kc. length (snd kc) = nrows df) (AList.update k c al)"
  proof -
    fix al show "list_all (\<lambda>kc. length (snd kc) = nrows df) al
          \<Longrightarrow> list_all (\<lambda>kc. length (snd kc) = nrows df) (AList.update k c al)"
      using l by (induction al) auto
  qed
  with a show ?thesis by (simp add: aligned_def setitem_def)
qed

lemma aligned_getitem: "aligned df \<Longrightarrow> getitem df k = Inr c \<Longrightarrow> length c = nrows df"
proof -
  assume a: "aligned df" and g: "getitem df k = Inr c"
  from g have "(k, c) \<in> set (cols df)" by (simp add: getitem_map_of map_of_SomeD)
  with a show ?thesis by (auto simp: aligned_def list_all_iff)
qed


section \<open>Coercion\<close>

lemma coerce_idem [simp]: "coerce parse (coerce parse x) = coerce parse x"
  by (cases x) (auto split: option.splits literal.splits)

lemma map_coerce_idem: "map (coerce parse) (map (coerce parse) c) = map (coerce parse) c"
  by simp

lemma cell_value_to_float_cell [simp]: "cell_value (to_float_cell x) = cell_value x"
  by (cases x) simp_all

lemma is_float_to_float_coerce [simp]: "is_float (to_float_cell (coerce parse x))"
  by (cases x) (auto split: option.splits literal.splits)

lemma coerce_float [simp]: "is_float x \<Longrightarrow> coerce parse x = x"
  by (cases x) simp_all

lemma to_float_cell_float [simp]: "is_float x \<Longrightarrow> to_float_cell x = x"
  by (cases x) simp_all

lemma coerce_int [simp]: "is_int x \<Longrightarrow> coerce parse x = x"
  by (cases x) simp_all

lemma not_int_column_floats: "list_all is_float c \<Longrightarrow> \<not> int_column c"
proof (cases c)
  case Nil
  then show ?thesis by (simp add: int_column_def)
next
  case (Cons x xs)
  assume "list_all is_float c"
  with Cons have "is_float x" by simp
  then have "\<not> is_int x" by (cases x) simp_all
  with Cons show ?thesis by (simp add: int_column_def)
qed

lemma map_coerce_floats: "list_all is_float c \<Longrightarrow> map (coerce parse) c = c"
  by (induction c) simp_all

lemma map_to_float_floats: "list_all is_float c \<Longrightarrow> map to_float_cell c = c"
  by (induction c) simp_all

lemma map_coerce_ints: "list_all is_int c \<Longrightarrow> map (coerce parse) c = c"
  by (induction c) simp_all

lemma to_numeric_floats_id: "list_all is_float c \<Longrightarrow> to_numeric parse c = c"
  by (simp add: to_numeric_def Let_def map_coerce_floats not_int_column_floats
        map_to_float_floats)

lemma to_numeric_ints_id: "list_all is_int c \<Longrightarrow> to_numeric parse c = c"
proof (cases "c = []")
  case True
  then show ?thesis by (simp add: to_numeric_def int_column_def)
next
  case False
  assume "list_all is_int c"
  with False show ?thesis by (simp add: to_numeric_def Let_def map_coerce_ints int_column_def)
qed

lemma to_numeric_numeric: "numeric_column c \<Longrightarrow> to_numeric parse c = c"
  by (auto simp: numeric_column_def to_numeric_floats_id to_numeric_ints_id)

lemma to_numeric_int_case:
  "int_column (map (coerce parse) c) \<Longrightarrow> to_numeric parse c = map (coerce parse) c"
  by (simp add: to_numeric_def)

lemma to_numeric_float_case:
  "\<not> int_column (map (coerce parse) c) \<Longrightarrow>
     to_numeric parse c = map to_float_cell (map (coerce parse) c)"
  by (simp add: to_numeric_def)

lemma floats_after_cast: "list_all is_float (map to_float_cell (map (coerce parse) c))"
  by (simp add: list_all_iff)

lemma to_numeric_float_case_floats:
  "\<not> int_column (map (coerce parse) c) \<Longrightarrow> list_all is_float (to_numeric parse c)"
proof -
  assume "\<not> int_column (map (coerce parse) c)"
  then have "to_numeric parse c = map to_float_cell (map (coerce parse) c)"
    by (rule to_numeric_float_case)
  then show ?thesis by (simp only: floats_after_cast)
qed

lemma to_numeric_numeric_column: "numeric_column (to_numeric parse c)"
proof (cases "int_column (map (coerce parse) c)")
  case True
  then have "list_all is_int (to_numeric parse c)"
    by (simp add: to_numeric_int_case int_column_def)
  then show ?thesis by (simp add: numeric_column_def)
next
  case False
  then have "list_all is_float (to_numeric parse c)" by (rule to_numeric_float_case_floats)
  then show ?thesis by (simp add: numeric_column_def)
qed

lemma to_numeric_idem [simp]: "to_numeric parse (to_numeric parse c) = to_numeric parse c"
  by (rule to_numeric_numeric) (rule to_numeric_numeric_column)

lemma int_column_to_numeric:
  "int_column (to_numeric parse c) \<longleftrightarrow> int_column (map (coerce parse) c)"
proof (cases "int_column (map (coerce parse) c)")
  case True
  then show ?thesis by (simp add: to_numeric_def)
next
  case False
  then have "list_all is_float (to_numeric parse c)" by (rule to_numeric_float_case_floats)
  then have "\<not> int_column (to_numeric parse c)" by (rule not_int_column_floats)
  with False show ?thesis by simp
qed

lemma length_to_numeric [simp]: "length (to_numeric parse c) = length c"
  by (simp add: to_numeric_def Let_def)

lemma to_numeric_nth_value:
  "i < length c \<Longrightarrow> cell_value (to_numeric parse c ! i) = numeric_value parse (c ! i)"
  by (simp add: to_numeric_def Let_def numeric_value_def)

lemma to_numeric_nth_NaN:
  assumes "i < length c" and "numeric_value parse (c ! i) = None"
  shows "to_numeric parse c ! i = NaN"
proof -
  have v: "cell_value (to_numeric parse c ! i) = None"
    using assms by (simp add: to_numeric_nth_value)
  have "numeric_column (to_numeric parse c)" by (rule to_numeric_numeric_column)
  moreover have "to_numeric parse c ! i \<in> set (to_numeric parse c)"
    using assms(1) by simp
  ultimately have "is_int (to_numeric parse c ! i) \<or> is_float (to_numeric parse c ! i)"
    by (auto simp: numeric_column_def list_all_iff)
  with v show ?thesis by (cases "to_numeric parse c ! i") simp_all
qed

section \<open>Columns as arrays\<close>

lemma as_floats_of_float [simp]: "as_floats (map of_float xs) = Inr xs"
proof (induction xs)
  case Nil
  show ?case by simp
next
  case (Cons x xs)
  then show ?case by (cases x) simp_all
qed

lemma as_floats_floats: "list_all is_float c \<Longrightarrow> as_floats c = Inr (map cell_value c)"
proof (induction c)
  case Nil
  show ?case by simp
next
  case (Cons x c)
  then show ?case by (cases x) simp_all
qed

lemma not_int_column_of_float [simp]: "\<not> int_column (map of_float xs)"
proof -
  have "list_all is_float (map of_float xs)"
  proof (induction xs)
    case Nil
    show ?case by simp
  next
    case (Cons x xs)
    then show ?case by (cases x) simp_all
  qed
  then show ?thesis by (rule not_int_column_floats)
qed

lemma as_array_of_float [simp]: "as_array (map of_float xs) = Inr (Float64 xs)"
  by (simp add: as_array_def)

lemma ints_value:
  "list_all is_int c \<Longrightarrow>
     map (\<lambda>w. Some (real_of_int (sint w))) (List.map_filter as_int c) = map cell_value c"
proof (induction c)
  case Nil
  show ?case by (simp add: List.map_filter_simps)
next
  case (Cons x c)
  then show ?case by (cases x) (simp_all add: List.map_filter_simps)
qed

lemma ints_length: "list_all is_int c \<Longrightarrow> length (List.map_filter as_int c) = length c"
proof (induction c)
  case Nil
  show ?case by (simp add: List.map_filter_simps)
next
  case (Cons x c)
  then show ?case by (cases x) (simp_all add: List.map_filter_simps)
qed

lemma as_array_to_numeric:
  "\<exists>a. as_array (to_numeric parse c) = Inr a
      \<and> to_float64 a = map (numeric_value parse) c
      \<and> ((\<exists>ws. a = Int64 ws) \<longleftrightarrow> int_column (to_numeric parse c))"
proof (cases "int_column (map (coerce parse) c)")
  case True
  then have t: "to_numeric parse c = map (coerce parse) c" by (simp add: to_numeric_def)
  from True have all: "list_all is_int (map (coerce parse) c)" by (simp add: int_column_def)
  let ?a = "Int64 (List.map_filter as_int (map (coerce parse) c))"
  have 1: "as_array (to_numeric parse c) = Inr ?a" using True by (simp add: t as_array_def)
  have "to_float64 ?a = map cell_value (map (coerce parse) c)"
    using ints_value [OF all] by simp
  then have 2: "to_float64 ?a = map (numeric_value parse) c"
    by (simp add: numeric_value_def comp_def)
  have 3: "(\<exists>ws. ?a = Int64 ws) \<longleftrightarrow> int_column (to_numeric parse c)"
    using True by (simp add: t)
  from 1 2 3 show ?thesis by (intro exI conjI)
next
  case False
  then have t: "to_numeric parse c = map to_float_cell (map (coerce parse) c)"
    by (rule to_numeric_float_case)
  from False have fl: "list_all is_float (to_numeric parse c)"
    by (rule to_numeric_float_case_floats)
  have ni: "\<not> int_column (to_numeric parse c)" using fl by (rule not_int_column_floats)
  let ?a = "Float64 (map cell_value (to_numeric parse c))"
  have 1: "as_array (to_numeric parse c) = Inr ?a"
    using ni by (simp add: as_array_def as_floats_floats [OF fl])
  have 2: "to_float64 ?a = map (numeric_value parse) c"
    by (simp add: t numeric_value_def comp_def)
  have 3: "(\<exists>ws. ?a = Int64 ws) \<longleftrightarrow> int_column (to_numeric parse c)"
    using ni by simp
  from 1 2 3 show ?thesis by (intro exI conjI)
qed

lemma array_column_setitem [simp]:
  "array_column (setitem df k c) k' = (if k' = k then as_array c else array_column df k')"
  by (simp add: array_column_def)

lemma float_column_setitem [simp]:
  "float_column (setitem df k c) k' =
     (if k' = k then and_then (as_array c) (\<lambda>a. Inr (to_float64 a)) else float_column df k')"
  by (simp add: float_column_def)


lemma has_columns_setitem: "has_columns df ks \<Longrightarrow> has_columns (setitem df k c) ks"
  by (simp add: has_columns_def list_all_iff map_of_setitem)

lemma coerce_columns_Inr:
  "has_columns df ks \<Longrightarrow>
     \<exists>df'. coerce_columns parse ks df = Inr df' \<and> nrows df' = nrows df
        \<and> colnames df' = colnames df
        \<and> (aligned df \<longrightarrow> aligned df')
        \<and> (\<forall>k. map_of (cols df') k =
              (if k \<in> set ks then map_option (to_numeric parse) (map_of (cols df) k)
               else map_of (cols df) k))"
proof (induction ks arbitrary: df)
  case Nil
  show ?case by simp
next
  case (Cons k ks)
  from Cons.prems obtain c where c: "map_of (cols df) k = Some c"
    by (auto simp: has_columns_def)
  then have g: "getitem df k = Inr c" by (simp add: getitem_map_of)
  let ?df1 = "setitem df k (to_numeric parse c)"
  from Cons.prems have "has_columns ?df1 ks"
    by (simp add: has_columns_def list_all_iff map_of_setitem)
  from Cons.IH [OF this] obtain df' where
    r: "coerce_columns parse ks ?df1 = Inr df'" and
    n: "nrows df' = nrows ?df1" and
    cn: "colnames df' = colnames ?df1" and
    al: "aligned ?df1 \<longrightarrow> aligned df'" and
    m: "\<forall>k'. map_of (cols df') k' =
              (if k' \<in> set ks then map_option (to_numeric parse) (map_of (cols ?df1) k')
               else map_of (cols ?df1) k')"
    by blast
  have k_in: "k \<in> set (colnames df)"
    using c by (simp add: colnames_def) (metis map_of_eq_None_iff option.distinct(1) set_map)
  have "coerce_columns parse (k # ks) df = Inr df'" using g r by simp
  moreover have "nrows df' = nrows df" using n by simp
  moreover have "colnames df' = colnames df" using cn k_in by (simp add: colnames_setitem)
  moreover have "aligned df \<longrightarrow> aligned df'"
  proof
    assume a: "aligned df"
    then have "length c = nrows df" using g by (rule aligned_getitem)
    then have "aligned ?df1" using a by (simp add: aligned_setitem)
    with al show "aligned df'" by simp
  qed
  moreover have "\<forall>k'. map_of (cols df') k' =
              (if k' \<in> set (k # ks) then map_option (to_numeric parse) (map_of (cols df) k')
               else map_of (cols df) k')"
    using m c by (simp add: map_of_setitem)
  ultimately show ?case by blast
qed

lemma coerce_columns_fixed:
  "list_all (\<lambda>k. \<exists>c. getitem df k = Inr c \<and> to_numeric parse c = c) ks
     \<Longrightarrow> coerce_columns parse ks df = Inr df"
proof (induction ks)
  case Nil
  show ?case by simp
next
  case (Cons k ks)
  then obtain c where c: "getitem df k = Inr c" "to_numeric parse c = c" by auto
  then have "setitem df k (to_numeric parse c) = df" by (simp add: setitem_triv)
  with Cons c show ?case by simp
qed


section \<open>Integer arithmetic without overflow\<close>

lemma sint_exact:
  fixes k :: int
  assumes "0 \<le> k" and "k < 2 ^ 63"
  shows "signed_take_bit 63 k = k"
  using assms by (intro signed_take_bit_int_eq_self) simp_all

lemma sint_square_exact:
  fixes a :: "64 word"
  assumes "(real_of_int (sint a))\<^sup>2 < 2 ^ 63"
  shows "real_of_int (sint (a * a)) = (real_of_int (sint a))\<^sup>2"
proof -
  have "real_of_int ((sint a)\<^sup>2) < real_of_int (2 ^ 63)" using assms by simp
  then have lt: "(sint a)\<^sup>2 < 2 ^ 63" by (simp only: of_int_less_iff)
  have "sint (a * a) = signed_take_bit 63 (sint a * sint a)"
    by (simp add: sint_word_ariths)
  also have "\<dots> = sint a * sint a"
    using lt by (intro sint_exact) (simp_all add: power2_eq_square)
  finally show ?thesis by (simp add: power2_eq_square)
qed

lemma sint_squares_exact:
  fixes a b :: "64 word"
  assumes "(real_of_int (sint a))\<^sup>2 + (real_of_int (sint b))\<^sup>2 < 2 ^ 63"
  shows "real_of_int (sint (a * a + b * b))
           = (real_of_int (sint a))\<^sup>2 + (real_of_int (sint b))\<^sup>2"
proof -
  have "real_of_int ((sint a)\<^sup>2 + (sint b)\<^sup>2) < real_of_int (2 ^ 63)" using assms by simp
  then have lt: "(sint a)\<^sup>2 + (sint b)\<^sup>2 < 2 ^ 63" by (simp only: of_int_less_iff)
  have nn: "0 \<le> sint a * sint a + sint b * sint b" by simp
  have "sint (a * a + b * b) = signed_take_bit 63 (sint a * sint a + sint b * sint b)"
    by (simp add: sint_word_ariths signed_take_bit_add signed_take_bit_mult)
  also have "\<dots> = sint a * sint a + sint b * sint b"
    using lt nn by (intro sint_exact) (simp_all add: power2_eq_square)
  finally show ?thesis by (simp add: power2_eq_square)
qed

section \<open>Element-wise values\<close>

lemma length_squares_sum:
  "length (to_float64 (array_add (array_square X) (array_square Y)))
     = min (length (to_float64 X)) (length (to_float64 Y))"
  by (cases X; cases Y) simp_all

lemma length_horizontal [simp]:
  "length (horizontal X Y) = min (length (to_float64 X)) (length (to_float64 Y))"
  by (simp add: horizontal_def length_squares_sum)

lemma length_angle_deg [simp]:
  "length (angle_deg A B) = min (length (to_float64 A)) (length (to_float64 B))"
  by (simp add: angle_deg_def)

lemma angle_deg_nth:
  "i < length (to_float64 A) \<Longrightarrow> i < length (to_float64 B) \<Longrightarrow>
     angle_deg A B ! i = np_degrees (np_arctan2 (to_float64 A ! i) (to_float64 B ! i))"
  by (simp add: angle_deg_def)

lemma np_sqrt_nonneg: "np_sqrt a = Some h \<Longrightarrow> 0 \<le> h"
  by (auto simp: np_sqrt_def split: option.splits if_splits)

lemma horizontal_nonneg:
  assumes "i < length (horizontal X Y)" and "horizontal X Y ! i = Some h"
  shows "0 \<le> h"
proof -
  from assms(1) have "i < length (to_float64 (array_add (array_square X) (array_square Y)))"
    by (simp add: length_squares_sum)
  then have "horizontal X Y ! i
               = np_sqrt (to_float64 (array_add (array_square X) (array_square Y)) ! i)"
    by (simp add: horizontal_def)
  with assms(2) show ?thesis by (simp add: np_sqrt_nonneg)
qed

lemma np_add_None [simp]: "np_add None b = None" "np_add a None = None"
  by (simp_all add: np_add_def split: option.splits)

lemma np_square_None [simp]: "np_square None = None"
  by (simp add: np_square_def)

lemma np_sqrt_None [simp]: "np_sqrt None = None"
  by (simp add: np_sqrt_def)

lemma horizontal_None:
  assumes "i < length (to_float64 X)" and "i < length (to_float64 Y)"
    and "to_float64 X ! i = None \<or> to_float64 Y ! i = None"
  shows "horizontal X Y ! i = None"
  using assms by (cases X; cases Y) (auto simp: horizontal_def)

lemma np_sqrt_Some: "0 \<le> r \<Longrightarrow> np_sqrt (Some r) = Some (sqrt r)"
  by (simp add: np_sqrt_def)

lemma horizontal_exact:
  assumes i: "i < length (to_float64 X)" "i < length (to_float64 Y)"
    and x: "to_float64 X ! i = Some x" and y: "to_float64 Y ! i = Some y"
    and fx: "(\<exists>ws. X = Int64 ws) \<longrightarrow> x\<^sup>2 < 2 ^ 63"
    and fy: "(\<exists>ws. Y = Int64 ws) \<longrightarrow> y\<^sup>2 < 2 ^ 63"
    and fxy: "(\<exists>ws. X = Int64 ws) \<and> (\<exists>ws. Y = Int64 ws) \<longrightarrow> x\<^sup>2 + y\<^sup>2 < 2 ^ 63"
  shows "horizontal X Y ! i = Some (hypot x y)"
proof (cases X)
  case (Int64 a)
  note X = this
  from i(1) x X have xa: "x = real_of_int (sint (a ! i))" and ia: "i < length a" by simp_all
  from fx X have x2: "(real_of_int (sint (a ! i)))\<^sup>2 < 2 ^ 63" by (simp add: xa)
  show ?thesis
  proof (cases Y)
    case (Int64 b)
    from i(2) y Int64 have yb: "y = real_of_int (sint (b ! i))" and ib: "i < length b"
      by simp_all
    from fxy X Int64
    have "(real_of_int (sint (a ! i)))\<^sup>2 + (real_of_int (sint (b ! i)))\<^sup>2 < 2 ^ 63"
      by (simp add: xa yb)
    then have "real_of_int (sint (a ! i * a ! i + b ! i * b ! i)) = x\<^sup>2 + y\<^sup>2"
      by (simp only: sint_squares_exact xa yb)
    then show ?thesis
      using ia ib X Int64 by (simp add: horizontal_def np_sqrt_Some hypot_def)
  next
    case (Float64 ys)
    from i(2) y Float64 have yv: "ys ! i = Some y" and iy: "i < length ys" by simp_all
    have "real_of_int (sint (a ! i * a ! i)) = x\<^sup>2"
      using x2 by (simp only: sint_square_exact xa)
    then show ?thesis
      using ia iy yv X Float64
      by (simp add: horizontal_def np_add_def np_square_def np_sqrt_Some hypot_def)
  qed
next
  case (Float64 xs)
  note X = this
  from i(1) x X have xv: "xs ! i = Some x" and ix: "i < length xs" by simp_all
  show ?thesis
  proof (cases Y)
    case (Int64 b)
    from i(2) y Int64 have yb: "y = real_of_int (sint (b ! i))" and ib: "i < length b"
      by simp_all
    from fy Int64 have "(real_of_int (sint (b ! i)))\<^sup>2 < 2 ^ 63" by (simp add: yb)
    then have "real_of_int (sint (b ! i * b ! i)) = y\<^sup>2"
      by (simp only: sint_square_exact yb)
    then show ?thesis
      using ix ib xv X Int64
      by (simp add: horizontal_def np_add_def np_square_def np_sqrt_Some hypot_def)
  next
    case (Float64 ys)
    from i(2) y Float64 have yv: "ys ! i = Some y" and iy: "i < length ys" by simp_all
    show ?thesis
      using ix iy xv yv X Float64
      by (simp add: horizontal_def np_add_def np_square_def np_sqrt_Some hypot_def)
  qed
qed

lemma np_angle_Some: "np_degrees (np_arctan2 (Some y) (Some x)) = Some (degrees (arctan2 y x))"
  by (simp add: np_degrees_def np_arctan2_def)

lemma np_angle_None: "a = None \<or> b = None \<Longrightarrow> np_degrees (np_arctan2 a b) = None"
  by (auto simp: np_degrees_def np_arctan2_def split: option.splits)

lemma hypot_nonneg: "0 \<le> hypot x y"
  by (simp add: hypot_def)

lemma of_float_Num: "of_float a = Num v \<longleftrightarrow> a = Some v"
  by (cases a) simp_all

lemma of_float_NaN: "of_float a = NaN \<longleftrightarrow> a = None"
  by (cases a) simp_all


section \<open>The two-argument arctangent\<close>

lemma arctan2_range: "- pi < arctan2 y x \<and> arctan2 y x \<le> pi"
proof -
  have lo: "- (pi / 2) < arctan (y / x)" by (rule arctan_lbound)
  have hi: "arctan (y / x) < pi / 2" by (rule arctan_ubound)
  have p: "0 < pi" by (rule pi_gt_zero)
  consider (pos) "0 < x" | (neg_up) "x < 0" "0 \<le> y" | (neg_down) "x < 0" "y < 0"
    | (zero) "x = 0"
    by linarith
  then show ?thesis
  proof cases
    case pos
    then have "arctan2 y x = arctan (y / x)" by (simp add: arctan2_def)
    then show ?thesis using lo hi p by linarith
  next
    case neg_up
    then have "y / x \<le> 0" by (simp add: divide_nonneg_neg)
    then have le: "arctan (y / x) \<le> 0" by (simp only: arctan_le_zero_iff)
    from neg_up have "arctan2 y x = arctan (y / x) + pi" by (simp add: arctan2_def)
    then show ?thesis using le lo p by linarith
  next
    case neg_down
    then have "0 < y / x" by (simp add: divide_neg_neg)
    then have gt: "0 < arctan (y / x)" by (simp only: zero_less_arctan_iff)
    from neg_down have "arctan2 y x = arctan (y / x) - pi" by (simp add: arctan2_def)
    then show ?thesis using gt hi p by linarith
  next
    case zero
    then have "arctan2 y x = pi / 2 \<or> arctan2 y x = - (pi / 2) \<or> arctan2 y x = 0"
      by (simp add: arctan2_def)
    then show ?thesis using p by linarith
  qed
qed

lemma arctan2_origin: "arctan2 0 0 = 0"
  by (simp add: arctan2_def)

lemma arctan2_right: "0 < x \<Longrightarrow> arctan2 y x = arctan (y / x)"
  by (simp add: arctan2_def)

lemma degrees_bounds:
  "- pi < a \<Longrightarrow> a \<le> pi \<Longrightarrow> - 180 < degrees a \<and> degrees a \<le> 180"
proof -
  assume lo: "- pi < a" and hi: "a \<le> pi"
  have p: "0 < pi" by (rule pi_gt_zero)
  have "degrees a \<le> 180"
    using hi p by (simp add: degrees_def field_simps)
  moreover have "- 180 < degrees a"
    using lo p by (simp add: degrees_def field_simps)
  ultimately show ?thesis by simp
qed

lemma degrees_quarter:
  "- (pi / 2) < a \<Longrightarrow> a < pi / 2 \<Longrightarrow> - 90 < degrees a \<and> degrees a < 90"
proof -
  assume lo: "- (pi / 2) < a" and hi: "a < pi / 2"
  have p: "0 < pi" by (rule pi_gt_zero)
  have "degrees a < 90"
    using hi p by (simp add: degrees_def field_simps)
  moreover have "- 90 < degrees a"
    using lo p by (simp add: degrees_def field_simps)
  ultimately show ?thesis by simp
qed

lemma radians_degrees: "radians (degrees a) = a"
  by (simp add: radians_def degrees_def)

lemma declination_range:
  "- 180 < degrees (arctan2 y x) \<and> degrees (arctan2 y x) \<le> 180"
  using arctan2_range [of y x] by (simp add: degrees_bounds)

lemma dip_range:
  assumes "0 < h"
  shows "- 90 < degrees (arctan2 z h) \<and> degrees (arctan2 z h) < 90
       \<and> tan (radians (degrees (arctan2 z h))) = z / h"
proof -
  have a: "arctan2 z h = arctan (z / h)" using assms by (rule arctan2_right)
  have "- 90 < degrees (arctan (z / h)) \<and> degrees (arctan (z / h)) < 90"
    by (rule degrees_quarter) (rule arctan_lbound, rule arctan_ubound)
  moreover have "tan (radians (degrees (arctan (z / h)))) = z / h"
    by (simp only: radians_degrees tan_arctan)
  ultimately show ?thesis by (simp only: a)
qed


section \<open>The angle derivation\<close>

lemma derive_angles_expand:
  assumes "coerce_columns parse raw_columns df = Inr df0"
    and "array_column df0 ''Bx_uT'' = Inr X"
    and "array_column df0 ''By_uT'' = Inr Y"
    and "array_column df0 ''Bz_uT'' = Inr Z"
  shows "derive_angles parse df =
           Inr (setitem (setitem (setitem df0
                  ''H_uT'' (map of_float (horizontal X Y)))
                  ''Dip_Angle_deg'' (map of_float (angle_deg Z (Float64 (horizontal X Y)))))
                  ''Declination_deg'' (map of_float (angle_deg Y X)))"
  using assms by (simp add: derive_angles_def Let_def)

lemma raw_coerced:
  assumes "has_columns df raw_columns"
  obtains df0 where "coerce_columns parse raw_columns df = Inr df0"
    and "nrows df0 = nrows df" and "colnames df0 = colnames df"
    and "aligned df \<Longrightarrow> aligned df0"
    and "\<And>k. getitem df0 k =
            (if k \<in> set raw_columns
             then (case getitem df k of Inl e \<Rightarrow> Inl e | Inr c \<Rightarrow> Inr (to_numeric parse c))
             else getitem df k)"
proof -
  from coerce_columns_Inr [OF assms, of parse] obtain df0 where
    r: "coerce_columns parse raw_columns df = Inr df0" and
    n: "nrows df0 = nrows df" and
    cn: "colnames df0 = colnames df" and
    al: "aligned df \<longrightarrow> aligned df0" and
    m: "\<forall>k. map_of (cols df0) k =
              (if k \<in> set raw_columns then map_option (to_numeric parse) (map_of (cols df) k)
               else map_of (cols df) k)"
    by blast
  have g: "\<And>k. getitem df0 k =
            (if k \<in> set raw_columns
             then (case getitem df k of Inl e \<Rightarrow> Inl e | Inr c \<Rightarrow> Inr (to_numeric parse c))
             else getitem df k)"
  proof -
    fix k
    show "getitem df0 k =
            (if k \<in> set raw_columns
             then (case getitem df k of Inl e \<Rightarrow> Inl e | Inr c \<Rightarrow> Inr (to_numeric parse c))
             else getitem df k)"
      using m [rule_format, of k] by (simp add: getitem_def split: option.splits)
  qed
  from that [OF r n cn _ g] al show thesis by blast
qed

lemma raw_columns_mem:
  "''Time_s'' \<in> set raw_columns" "''Bx_uT'' \<in> set raw_columns" "''By_uT'' \<in> set raw_columns"
  "''Bz_uT'' \<in> set raw_columns" "''Absolute_field_uT'' \<in> set raw_columns"
  by (simp_all add: raw_columns_def)

lemma derived_not_raw:
  "''H_uT'' \<notin> set raw_columns" "''Dip_Angle_deg'' \<notin> set raw_columns"
  "''Declination_deg'' \<notin> set raw_columns" "''Dip_Angle_smooth'' \<notin> set raw_columns"
  "''Declination_smooth'' \<notin> set raw_columns" "''Bz_smooth'' \<notin> set raw_columns"
  by (simp_all add: raw_columns_def)

lemma array_column_coerced:
  assumes "getitem df0 k = Inr (to_numeric parse c)"
  obtains a where "array_column df0 k = Inr a"
    and "to_float64 a = map (numeric_value parse) c"
    and "(\<exists>ws. a = Int64 ws) \<longleftrightarrow> int_column (to_numeric parse c)"
proof -
  from as_array_to_numeric [of parse c] obtain a where
    1: "as_array (to_numeric parse c) = Inr a" and
    2: "to_float64 a = map (numeric_value parse) c" and
    3: "(\<exists>ws. a = Int64 ws) \<longleftrightarrow> int_column (to_numeric parse c)"
    by (elim exE conjE)
  have "array_column df0 k = Inr a" using assms 1 by (simp add: array_column_def)
  from that [OF this 2 3] show thesis .
qed

lemma derive_angles_result:
  assumes h: "has_columns df raw_columns"
    and gx: "getitem df ''Bx_uT'' = Inr cbx"
    and gy: "getitem df ''By_uT'' = Inr cby"
    and gz: "getitem df ''Bz_uT'' = Inr cbz"
  obtains df0 X Y Z where "coerce_columns parse raw_columns df = Inr df0"
    and "nrows df0 = nrows df" and "colnames df0 = colnames df"
    and "aligned df \<Longrightarrow> aligned df0"
    and "\<And>k. getitem df0 k =
            (if k \<in> set raw_columns
             then (case getitem df k of Inl e \<Rightarrow> Inl e | Inr c \<Rightarrow> Inr (to_numeric parse c))
             else getitem df k)"
    and "array_column df0 ''Bx_uT'' = Inr X" and "array_column df0 ''By_uT'' = Inr Y"
    and "array_column df0 ''Bz_uT'' = Inr Z"
    and "to_float64 X = map (numeric_value parse) cbx"
    and "to_float64 Y = map (numeric_value parse) cby"
    and "to_float64 Z = map (numeric_value parse) cbz"
    and "(\<exists>ws. X = Int64 ws) \<longleftrightarrow> int_column (to_numeric parse cbx)"
    and "(\<exists>ws. Y = Int64 ws) \<longleftrightarrow> int_column (to_numeric parse cby)"
    and "derive_angles parse df =
           Inr (setitem (setitem (setitem df0
                  ''H_uT'' (map of_float (horizontal X Y)))
                  ''Dip_Angle_deg'' (map of_float (angle_deg Z (Float64 (horizontal X Y)))))
                  ''Declination_deg'' (map of_float (angle_deg Y X)))"
proof (rule raw_coerced [OF h, of parse])
  fix df0
  assume r: "coerce_columns parse raw_columns df = Inr df0"
    and n: "nrows df0 = nrows df" and cn: "colnames df0 = colnames df"
    and al: "aligned df \<Longrightarrow> aligned df0"
    and g: "\<And>k. getitem df0 k =
            (if k \<in> set raw_columns
             then (case getitem df k of Inl e \<Rightarrow> Inl e | Inr c \<Rightarrow> Inr (to_numeric parse c))
             else getitem df k)"
  have g0x: "getitem df0 ''Bx_uT'' = Inr (to_numeric parse cbx)"
    by (simp add: g raw_columns_mem gx)
  have g0y: "getitem df0 ''By_uT'' = Inr (to_numeric parse cby)"
    by (simp add: g raw_columns_mem gy)
  have g0z: "getitem df0 ''Bz_uT'' = Inr (to_numeric parse cbz)"
    by (simp add: g raw_columns_mem gz)
  show thesis
  proof (rule array_column_coerced [OF g0x])
    fix X assume X: "array_column df0 ''Bx_uT'' = Inr X"
      and fX: "to_float64 X = map (numeric_value parse) cbx"
      and iX: "(\<exists>ws. X = Int64 ws) \<longleftrightarrow> int_column (to_numeric parse cbx)"
    show thesis
    proof (rule array_column_coerced [OF g0y])
      fix Y assume Y: "array_column df0 ''By_uT'' = Inr Y"
        and fY: "to_float64 Y = map (numeric_value parse) cby"
        and iY: "(\<exists>ws. Y = Int64 ws) \<longleftrightarrow> int_column (to_numeric parse cby)"
      show thesis
      proof (rule array_column_coerced [OF g0z])
        fix Z assume Z: "array_column df0 ''Bz_uT'' = Inr Z"
          and fZ: "to_float64 Z = map (numeric_value parse) cbz"
        show thesis
          by (rule that [OF r n cn al g X Y Z fX fY fZ iX iY derive_angles_expand [OF r X Y Z]])
      qed
    qed
  qed
qed


section \<open>The derived columns, sample by sample\<close>

lemma has_columnsD:
  "has_columns df ks \<Longrightarrow> k \<in> set ks \<Longrightarrow> \<exists>c. getitem df k = Inr c"
  by (simp add: has_columns_def list_all_iff getitem_Inr_iff)

lemma raw_not_derived:
  "k \<in> set raw_columns \<Longrightarrow>
     k \<noteq> ''H_uT'' \<and> k \<noteq> ''Dip_Angle_deg'' \<and> k \<noteq> ''Declination_deg''
   \<and> k \<noteq> ''Dip_Angle_smooth'' \<and> k \<noteq> ''Declination_smooth'' \<and> k \<noteq> ''Bz_smooth''"
  by (auto simp: raw_columns_def)

lemma derived_cells:
  assumes h: "has_columns df raw_columns" and al: "aligned df"
    and gx: "getitem df ''Bx_uT'' = Inr cbx"
    and gy: "getitem df ''By_uT'' = Inr cby"
    and gz: "getitem df ''Bz_uT'' = Inr cbz"
  obtains df0 df1 hs ds es where
    "nrows df0 = nrows df" "colnames df0 = colnames df" "aligned df0"
    "\<And>k. getitem df0 k =
            (if k \<in> set raw_columns
             then (case getitem df k of Inl e \<Rightarrow> Inl e | Inr c \<Rightarrow> Inr (to_numeric parse c))
             else getitem df k)"
    "df1 = setitem (setitem (setitem df0 ''H_uT'' (map of_float hs))
                      ''Dip_Angle_deg'' (map of_float ds))
                      ''Declination_deg'' (map of_float es)"
    "derive_angles parse df = Inr df1"
    "length hs = nrows df" "length ds = nrows df" "length es = nrows df"
    "float_column df1 ''Bz_uT'' = Inr (map (numeric_value parse) cbz)"
    "\<And>i v. i < nrows df \<Longrightarrow> hs ! i = Some v \<Longrightarrow> 0 \<le> v"
    "\<And>i. i < nrows df \<Longrightarrow>
        numeric_value parse (cbx ! i) = None \<or> numeric_value parse (cby ! i) = None \<Longrightarrow>
        hs ! i = None"
    "\<And>i x y. i < nrows df \<Longrightarrow>
        numeric_value parse (cbx ! i) = Some x \<Longrightarrow> numeric_value parse (cby ! i) = Some y \<Longrightarrow>
        squares_fit (to_numeric parse cbx) (to_numeric parse cby) x y \<Longrightarrow>
        hs ! i = Some (hypot x y)"
    "\<And>i. i < nrows df \<Longrightarrow>
        ds ! i = np_degrees (np_arctan2 (numeric_value parse (cbz ! i)) (hs ! i))"
    "\<And>i. i < nrows df \<Longrightarrow>
        es ! i = np_degrees (np_arctan2 (numeric_value parse (cby ! i))
                                        (numeric_value parse (cbx ! i)))"
proof (rule derive_angles_result [OF h gx gy gz, of parse])
  fix df0 X Y Z
  assume n0: "nrows df0 = nrows df" and cn0: "colnames df0 = colnames df"
    and al0: "aligned df \<Longrightarrow> aligned df0"
    and g: "\<And>k. getitem df0 k =
            (if k \<in> set raw_columns
             then (case getitem df k of Inl e \<Rightarrow> Inl e | Inr c \<Rightarrow> Inr (to_numeric parse c))
             else getitem df k)"
    and aZ: "array_column df0 ''Bz_uT'' = Inr Z"
    and fX: "to_float64 X = map (numeric_value parse) cbx"
    and fY: "to_float64 Y = map (numeric_value parse) cby"
    and fZ: "to_float64 Z = map (numeric_value parse) cbz"
    and iX: "(\<exists>ws. X = Int64 ws) \<longleftrightarrow> int_column (to_numeric parse cbx)"
    and iY: "(\<exists>ws. Y = Int64 ws) \<longleftrightarrow> int_column (to_numeric parse cby)"
    and d: "derive_angles parse df =
           Inr (setitem (setitem (setitem df0
                  ''H_uT'' (map of_float (horizontal X Y)))
                  ''Dip_Angle_deg'' (map of_float (angle_deg Z (Float64 (horizontal X Y)))))
                  ''Declination_deg'' (map of_float (angle_deg Y X)))"
  define hs where "hs = horizontal X Y"
  define ds where "ds = angle_deg Z (Float64 hs)"
  define es where "es = angle_deg Y X"
  define df1 where "df1 = setitem (setitem (setitem df0 ''H_uT'' (map of_float hs))
                      ''Dip_Angle_deg'' (map of_float ds))
                      ''Declination_deg'' (map of_float es)"
  have lx: "length cbx = nrows df" by (rule aligned_getitem [OF al gx])
  have ly: "length cby = nrows df" by (rule aligned_getitem [OF al gy])
  have lz: "length cbz = nrows df" by (rule aligned_getitem [OF al gz])
  have lX: "length (to_float64 X) = nrows df" by (simp add: fX lx)
  have lY: "length (to_float64 Y) = nrows df" by (simp add: fY ly)
  have lZ: "length (to_float64 Z) = nrows df" by (simp add: fZ lz)
  have d1: "derive_angles parse df = Inr df1"
    using d by (simp only: df1_def hs_def ds_def es_def)
  have lh: "length hs = nrows df" by (simp add: hs_def lX lY)
  have ld: "length ds = nrows df" by (simp add: ds_def lZ lh)
  have le: "length es = nrows df" by (simp add: es_def lX lY)
  have fz: "float_column df1 ''Bz_uT'' = Inr (map (numeric_value parse) cbz)"
    by (simp add: df1_def float_column_def aZ fZ)
  have nonneg: "\<And>i v. i < nrows df \<Longrightarrow> hs ! i = Some v \<Longrightarrow> 0 \<le> v"
  proof -
    fix i v assume "i < nrows df" and v: "hs ! i = Some v"
    then have "i < length (horizontal X Y)" by (simp add: lX lY)
    then show "0 \<le> v" using v unfolding hs_def by (rule horizontal_nonneg)
  qed
  have missing: "\<And>i. i < nrows df \<Longrightarrow>
        numeric_value parse (cbx ! i) = None \<or> numeric_value parse (cby ! i) = None \<Longrightarrow>
        hs ! i = None"
  proof -
    fix i assume i: "i < nrows df"
      and m: "numeric_value parse (cbx ! i) = None \<or> numeric_value parse (cby ! i) = None"
    have "to_float64 X ! i = None \<or> to_float64 Y ! i = None"
      using m i lx ly by (simp add: fX fY)
    then show "hs ! i = None"
      unfolding hs_def using i by (intro horizontal_None) (simp_all add: lX lY)
  qed
  have exact: "\<And>i x y. i < nrows df \<Longrightarrow>
        numeric_value parse (cbx ! i) = Some x \<Longrightarrow> numeric_value parse (cby ! i) = Some y \<Longrightarrow>
        squares_fit (to_numeric parse cbx) (to_numeric parse cby) x y \<Longrightarrow>
        hs ! i = Some (hypot x y)"
  proof -
    fix i x y assume i: "i < nrows df"
      and x: "numeric_value parse (cbx ! i) = Some x"
      and y: "numeric_value parse (cby ! i) = Some y"
      and sf: "squares_fit (to_numeric parse cbx) (to_numeric parse cby) x y"
    have iX': "i < length (to_float64 X)" and iY': "i < length (to_float64 Y)"
      using i by (simp_all add: lX lY)
    have vx: "to_float64 X ! i = Some x" using x i lx by (simp add: fX)
    have vy: "to_float64 Y ! i = Some y" using y i ly by (simp add: fY)
    have 1: "(\<exists>ws. X = Int64 ws) \<longrightarrow> x\<^sup>2 < 2 ^ 63"
      using sf by (simp only: iX squares_fit_def) simp
    have 2: "(\<exists>ws. Y = Int64 ws) \<longrightarrow> y\<^sup>2 < 2 ^ 63"
      using sf by (simp only: iY squares_fit_def) simp
    have 3: "(\<exists>ws. X = Int64 ws) \<and> (\<exists>ws. Y = Int64 ws) \<longrightarrow> x\<^sup>2 + y\<^sup>2 < 2 ^ 63"
      using sf by (simp only: iX iY squares_fit_def) simp
    show "hs ! i = Some (hypot x y)"
      unfolding hs_def by (rule horizontal_exact [OF iX' iY' vx vy 1 2 3])
  qed
  have dip: "\<And>i. i < nrows df \<Longrightarrow>
        ds ! i = np_degrees (np_arctan2 (numeric_value parse (cbz ! i)) (hs ! i))"
  proof -
    fix i assume i: "i < nrows df"
    have "angle_deg Z (Float64 hs) ! i
            = np_degrees (np_arctan2 (to_float64 Z ! i) (to_float64 (Float64 hs) ! i))"
      using i by (intro angle_deg_nth) (simp_all add: lZ lh)
    then show "ds ! i = np_degrees (np_arctan2 (numeric_value parse (cbz ! i)) (hs ! i))"
      using i lz by (simp add: ds_def fZ)
  qed
  have dec: "\<And>i. i < nrows df \<Longrightarrow>
        es ! i = np_degrees (np_arctan2 (numeric_value parse (cby ! i))
                                        (numeric_value parse (cbx ! i)))"
  proof -
    fix i assume i: "i < nrows df"
    have "angle_deg Y X ! i = np_degrees (np_arctan2 (to_float64 Y ! i) (to_float64 X ! i))"
      using i by (intro angle_deg_nth) (simp_all add: lX lY)
    then show "es ! i = np_degrees (np_arctan2 (numeric_value parse (cby ! i))
                                        (numeric_value parse (cbx ! i)))"
      using i lx ly by (simp add: es_def fX fY)
  qed
  show thesis
    by (rule that [OF n0 cn0 al0 [OF al] g df1_def d1 lh ld le fz nonneg missing exact dip dec])
qed


section \<open>The smoothing stage\<close>

lemma edge_nan_iff:
  "edge_nan xs w \<longleftrightarrow> (\<exists>i<length xs. (i < w \<or> length xs - w \<le> i) \<and> xs ! i = None)"
proof
  assume "edge_nan xs w"
  then consider (head_edge) "None \<in> set (take w xs)" | (tail_edge) "None \<in> set (drop (length xs - w) xs)"
    by (auto simp: edge_nan_def)
  then show "\<exists>i<length xs. (i < w \<or> length xs - w \<le> i) \<and> xs ! i = None"
  proof cases
    case head_edge
    then obtain i where "i < length (take w xs)" and "take w xs ! i = None"
      by (auto simp: in_set_conv_nth)
    then have "i < length xs" "i < w" "xs ! i = None" by simp_all
    then show ?thesis by (intro exI conjI disjI1)
  next
    case tail_edge
    then obtain j where j: "j < length (drop (length xs - w) xs)"
      and v: "drop (length xs - w) xs ! j = None"
      by (auto simp: in_set_conv_nth)
    let ?i = "length xs - w + j"
    from j have 1: "?i < length xs" by simp
    have 2: "length xs - w \<le> ?i" by simp
    from j v have 3: "xs ! ?i = None" by simp
    from 1 2 3 show ?thesis by (intro exI [of _ ?i] conjI disjI2)
  qed
next
  assume "\<exists>i<length xs. (i < w \<or> length xs - w \<le> i) \<and> xs ! i = None"
  then obtain i where i: "i < length xs" and e: "i < w \<or> length xs - w \<le> i"
    and v: "xs ! i = None" by (elim exE conjE)
  from e show "edge_nan xs w"
  proof
    assume "i < w"
    with i v have "i < length (take w xs)" "take w xs ! i = None" by simp_all
    then have "None \<in> set (take w xs)" by (metis nth_mem)
    then show ?thesis by (simp add: edge_nan_def)
  next
    assume "length xs - w \<le> i"
    then obtain j where j: "i = length xs - w + j" by (metis le_Suc_ex)
    with i v have "j < length (drop (length xs - w) xs)"
      "drop (length xs - w) xs ! j = None" by simp_all
    then have "None \<in> set (drop (length xs - w) xs)" by (metis nth_mem)
    then show ?thesis by (simp add: edge_nan_def)
  qed
qed

lemma edge_nan_mono:
  assumes "length ys = length xs" and "\<And>i. i < length xs \<Longrightarrow> ys ! i = None \<Longrightarrow> xs ! i = None"
    and "edge_nan ys w"
  shows "edge_nan xs w"
proof -
  from assms(3) obtain i where "i < length ys" "i < w \<or> length ys - w \<le> i" "ys ! i = None"
    by (auto simp: edge_nan_iff)
  with assms(1,2) have "i < length xs \<and> (i < w \<or> length xs - w \<le> i) \<and> xs ! i = None"
    by simp
  then show ?thesis by (auto simp: edge_nan_iff)
qed

lemma savgol_filter_fails: "edge_nan xs w \<Longrightarrow> savgol_filter fit xs w p = Inl ValueError"
  by (simp add: savgol_filter_def)

lemma savgol_filter_returns:
  "w \<le> length xs \<Longrightarrow> \<not> edge_nan xs w \<Longrightarrow> savgol_filter fit xs w p = Inr (fit xs w p)"
  by (simp add: savgol_filter_def)

lemma copy_columns_expand:
  assumes "getitem df ''Dip_Angle_deg'' = Inr a"
    and "getitem df ''Declination_deg'' = Inr b"
    and "getitem df ''Bz_uT'' = Inr c"
  shows "copy_columns df =
           Inr (setitem (setitem (setitem df ''Dip_Angle_smooth'' a)
                  ''Declination_smooth'' b) ''Bz_smooth'' c)"
  using assms by (simp add: copy_columns_def Let_def)

lemma float_column_other:
  "k' \<noteq> k \<Longrightarrow> float_column (setitem df k c) k' = float_column df k'"
  by simp

lemma filter_columns_fails:
  assumes "float_column df ''Dip_Angle_deg'' = Inr ds" and "edge_nan ds w"
  shows "filter_columns fit w df = Inl ValueError"
  using assms by (simp add: filter_columns_def savgol_filter_fails)

lemma filter_columns_returns:
  assumes d: "float_column df ''Dip_Angle_deg'' = Inr ds"
    and e: "float_column df ''Declination_deg'' = Inr es"
    and z: "float_column df ''Bz_uT'' = Inr zs"
    and w: "w \<le> length ds" "w \<le> length es" "w \<le> length zs"
    and ok: "\<not> edge_nan ds w" "\<not> edge_nan es w" "\<not> edge_nan zs w"
  shows "filter_columns fit w df =
           Inr (setitem (setitem (setitem df
                  ''Dip_Angle_smooth'' (map of_float (fit ds w 2)))
                  ''Declination_smooth'' (map of_float (fit es w 2)))
                  ''Bz_smooth'' (map of_float (fit zs w 2)))"
proof -
  have 1: "savgol_filter fit ds w 2 = Inr (fit ds w 2)"
    by (rule savgol_filter_returns [OF w(1) ok(1)])
  have 2: "savgol_filter fit es w 2 = Inr (fit es w 2)"
    by (rule savgol_filter_returns [OF w(2) ok(2)])
  have 3: "savgol_filter fit zs w 2 = Inr (fit zs w 2)"
    by (rule savgol_filter_returns [OF w(3) ok(3)])
  show ?thesis
    by (simp add: filter_columns_def Let_def d e z 1 2 3)
qed

lemma smooth_short:
  "nrows df \<le> 10 \<Longrightarrow> smooth fit df = copy_columns df"
  by (simp add: smooth_def select_branch_def)

lemma smooth_long:
  "10 < nrows df \<Longrightarrow> smooth fit df = filter_columns fit (window_length (nrows df)) df"
  by (simp add: smooth_def select_branch_eq)

lemma float_column_of_float:
  "getitem df k = Inr (map of_float xs) \<Longrightarrow> float_column df k = Inr xs"
  by (simp add: float_column_def array_column_def)


lemma np_angle_None_iff: "np_degrees (np_arctan2 a b) = None \<longleftrightarrow> a = None \<or> b = None"
  by (cases a; cases b) (simp_all add: np_degrees_def np_arctan2_def)

lemma smooth_derived:
  assumes df1: "df1 = setitem (setitem (setitem df0 ''H_uT'' (map of_float hs))
                      ''Dip_Angle_deg'' (map of_float ds))
                      ''Declination_deg'' (map of_float es)"
    and n0: "nrows df0 = n"
    and g0z: "getitem df0 ''Bz_uT'' = Inr bz"
    and fz: "float_column df1 ''Bz_uT'' = Inr zs"
    and ld: "length ds = n" and le: "length es = n" and lz: "length zs = n"
    and sub1: "\<And>i. i < n \<Longrightarrow> es ! i = None \<Longrightarrow> ds ! i = None"
    and sub2: "\<And>i. i < n \<Longrightarrow> zs ! i = None \<Longrightarrow> ds ! i = None"
  shows "n \<le> 10 \<Longrightarrow> smooth fit df1 =
           Inr (setitem (setitem (setitem df1 ''Dip_Angle_smooth'' (map of_float ds))
                  ''Declination_smooth'' (map of_float es)) ''Bz_smooth'' bz)"
    and "10 < n \<Longrightarrow> edge_nan ds (window_length n) \<Longrightarrow> smooth fit df1 = Inl ValueError"
    and "10 < n \<Longrightarrow> \<not> edge_nan ds (window_length n) \<Longrightarrow> smooth fit df1 =
           Inr (setitem (setitem (setitem df1
                  ''Dip_Angle_smooth'' (map of_float (fit ds (window_length n) 2)))
                  ''Declination_smooth'' (map of_float (fit es (window_length n) 2)))
                  ''Bz_smooth'' (map of_float (fit zs (window_length n) 2)))"
proof -
  have n1: "nrows df1 = n" by (simp add: df1 n0)
  have gd: "getitem df1 ''Dip_Angle_deg'' = Inr (map of_float ds)" by (simp add: df1)
  have ge: "getitem df1 ''Declination_deg'' = Inr (map of_float es)" by (simp add: df1)
  have gz: "getitem df1 ''Bz_uT'' = Inr bz" by (simp add: df1 g0z)
  have fd: "float_column df1 ''Dip_Angle_deg'' = Inr ds" by (rule float_column_of_float [OF gd])
  have fe: "float_column df1 ''Declination_deg'' = Inr es" by (rule float_column_of_float [OF ge])
  show "n \<le> 10 \<Longrightarrow> smooth fit df1 =
           Inr (setitem (setitem (setitem df1 ''Dip_Angle_smooth'' (map of_float ds))
                  ''Declination_smooth'' (map of_float es)) ''Bz_smooth'' bz)"
    by (simp only: smooth_short n1 copy_columns_expand [OF gd ge gz])
  show "10 < n \<Longrightarrow> edge_nan ds (window_length n) \<Longrightarrow> smooth fit df1 = Inl ValueError"
    by (simp only: smooth_long n1 filter_columns_fails [OF fd])
  show "10 < n \<Longrightarrow> \<not> edge_nan ds (window_length n) \<Longrightarrow> smooth fit df1 =
           Inr (setitem (setitem (setitem df1
                  ''Dip_Angle_smooth'' (map of_float (fit ds (window_length n) 2)))
                  ''Declination_smooth'' (map of_float (fit es (window_length n) 2)))
                  ''Bz_smooth'' (map of_float (fit zs (window_length n) 2)))"
  proof -
    assume big: "10 < n" and ok: "\<not> edge_nan ds (window_length n)"
    have w: "window_length n \<le> n" using big by (rule window_length_le)
    have oke: "\<not> edge_nan es (window_length n)"
    proof
      assume "edge_nan es (window_length n)"
      then have "edge_nan ds (window_length n)"
        by (rule edge_nan_mono [rotated 2]) (simp_all add: ld le sub1)
      with ok show False by simp
    qed
    have okz: "\<not> edge_nan zs (window_length n)"
    proof
      assume "edge_nan zs (window_length n)"
      then have "edge_nan ds (window_length n)"
        by (rule edge_nan_mono [rotated 2]) (simp_all add: ld lz sub2)
      with ok show False by simp
    qed
    have "filter_columns fit (window_length n) df1 =
           Inr (setitem (setitem (setitem df1
                  ''Dip_Angle_smooth'' (map of_float (fit ds (window_length n) 2)))
                  ''Declination_smooth'' (map of_float (fit es (window_length n) 2)))
                  ''Bz_smooth'' (map of_float (fit zs (window_length n) 2)))"
      by (rule filter_columns_returns [OF fd fe fz _ _ _ ok oke okz]) (simp_all add: ld le lz w)
    with big show ?thesis by (simp only: smooth_long n1)
  qed
qed


lemma calculate_cells:
  assumes h: "has_columns df raw_columns" and al: "aligned df"
    and gx: "getitem df ''Bx_uT'' = Inr cbx"
    and gy: "getitem df ''By_uT'' = Inr cby"
    and gz: "getitem df ''Bz_uT'' = Inr cbz"
  obtains df0 df1 hs ds es where
    "nrows df0 = nrows df" "colnames df0 = colnames df" "aligned df0"
    "\<And>k. getitem df0 k =
            (if k \<in> set raw_columns
             then (case getitem df k of Inl e \<Rightarrow> Inl e | Inr c \<Rightarrow> Inr (to_numeric parse c))
             else getitem df k)"
    "df1 = setitem (setitem (setitem df0 ''H_uT'' (map of_float hs))
                      ''Dip_Angle_deg'' (map of_float ds))
                      ''Declination_deg'' (map of_float es)"
    "derive_angles parse df = Inr df1"
    "length hs = nrows df" "length ds = nrows df" "length es = nrows df"
    "float_column df1 ''Bz_uT'' = Inr (map (numeric_value parse) cbz)"
    "\<And>i v. i < nrows df \<Longrightarrow> hs ! i = Some v \<Longrightarrow> 0 \<le> v"
    "\<And>i. i < nrows df \<Longrightarrow>
        numeric_value parse (cbx ! i) = None \<or> numeric_value parse (cby ! i) = None \<Longrightarrow>
        hs ! i = None"
    "\<And>i x y. i < nrows df \<Longrightarrow>
        numeric_value parse (cbx ! i) = Some x \<Longrightarrow> numeric_value parse (cby ! i) = Some y \<Longrightarrow>
        squares_fit (to_numeric parse cbx) (to_numeric parse cby) x y \<Longrightarrow>
        hs ! i = Some (hypot x y)"
    "\<And>i. i < nrows df \<Longrightarrow>
        ds ! i = np_degrees (np_arctan2 (numeric_value parse (cbz ! i)) (hs ! i))"
    "\<And>i. i < nrows df \<Longrightarrow>
        es ! i = np_degrees (np_arctan2 (numeric_value parse (cby ! i))
                                        (numeric_value parse (cbx ! i)))"
    "calculate_magnetic_parameters parse fit df = smooth fit df1"
    "nrows df \<le> 10 \<Longrightarrow> smooth fit df1 =
           Inr (setitem (setitem (setitem df1 ''Dip_Angle_smooth'' (map of_float ds))
                  ''Declination_smooth'' (map of_float es))
                  ''Bz_smooth'' (to_numeric parse cbz))"
    "10 < nrows df \<Longrightarrow> edge_nan ds (window_length (nrows df)) \<Longrightarrow>
       smooth fit df1 = Inl ValueError"
    "10 < nrows df \<Longrightarrow> \<not> edge_nan ds (window_length (nrows df)) \<Longrightarrow> smooth fit df1 =
           Inr (setitem (setitem (setitem df1
                  ''Dip_Angle_smooth'' (map of_float (fit ds (window_length (nrows df)) 2)))
                  ''Declination_smooth'' (map of_float (fit es (window_length (nrows df)) 2)))
                  ''Bz_smooth'' (map of_float
                     (fit (map (numeric_value parse) cbz) (window_length (nrows df)) 2)))"
proof (rule derived_cells [OF h al gx gy gz, of parse])
  fix df0 df1 hs ds es
  assume n0: "nrows df0 = nrows df"
    and cn0: "colnames df0 = colnames df"
    and al0: "aligned df0"
    and g: "\<And>k. getitem df0 k =
            (if k \<in> set raw_columns
             then (case getitem df k of Inl e \<Rightarrow> Inl e | Inr c \<Rightarrow> Inr (to_numeric parse c))
             else getitem df k)"
    and df1: "df1 = setitem (setitem (setitem df0 ''H_uT'' (map of_float hs))
                      ''Dip_Angle_deg'' (map of_float ds))
                      ''Declination_deg'' (map of_float es)"
    and d1: "derive_angles parse df = Inr df1"
    and lh: "length hs = nrows df"
    and ld: "length ds = nrows df"
    and le: "length es = nrows df"
    and fz: "float_column df1 ''Bz_uT'' = Inr (map (numeric_value parse) cbz)"
    and nonneg: "\<And>i v. i < nrows df \<Longrightarrow> hs ! i = Some v \<Longrightarrow> 0 \<le> v"
    and missing: "\<And>i. i < nrows df \<Longrightarrow>
        numeric_value parse (cbx ! i) = None \<or> numeric_value parse (cby ! i) = None \<Longrightarrow>
        hs ! i = None"
    and exact: "\<And>i x y. i < nrows df \<Longrightarrow>
        numeric_value parse (cbx ! i) = Some x \<Longrightarrow> numeric_value parse (cby ! i) = Some y \<Longrightarrow>
        squares_fit (to_numeric parse cbx) (to_numeric parse cby) x y \<Longrightarrow>
        hs ! i = Some (hypot x y)"
    and dip: "\<And>i. i < nrows df \<Longrightarrow>
        ds ! i = np_degrees (np_arctan2 (numeric_value parse (cbz ! i)) (hs ! i))"
    and dec: "\<And>i. i < nrows df \<Longrightarrow>
        es ! i = np_degrees (np_arctan2 (numeric_value parse (cby ! i))
                                        (numeric_value parse (cbx ! i)))"
  have lz: "length (map (numeric_value parse) cbz) = nrows df"
    using aligned_getitem [OF al gz] by simp
  have g0z: "getitem df0 ''Bz_uT'' = Inr (to_numeric parse cbz)"
    by (simp add: g raw_columns_mem gz)
  have sub1: "\<And>i. i < nrows df \<Longrightarrow> es ! i = None \<Longrightarrow> ds ! i = None"
  proof -
    fix i assume i: "i < nrows df" and "es ! i = None"
    then have "numeric_value parse (cby ! i) = None \<or> numeric_value parse (cbx ! i) = None"
      by (simp add: dec np_angle_None_iff)
    then have "hs ! i = None" using missing [OF i] by auto
    then show "ds ! i = None" by (simp add: dip [OF i] np_angle_None_iff)
  qed
  have sub2: "\<And>i. i < nrows df \<Longrightarrow> map (numeric_value parse) cbz ! i = None \<Longrightarrow> ds ! i = None"
  proof -
    fix i assume i: "i < nrows df" and "map (numeric_value parse) cbz ! i = None"
    then have "numeric_value parse (cbz ! i) = None" using lz by simp
    then show "ds ! i = None" by (simp add: dip [OF i] np_angle_None_iff)
  qed
  note sd = smooth_derived [OF df1 n0 g0z fz ld le lz sub1 sub2, of fit]
  have cm: "calculate_magnetic_parameters parse fit df = smooth fit df1"
    by (simp add: calculate_magnetic_parameters_def d1)
  show thesis
    by (rule that [OF n0 cn0 al0 g df1 d1 lh ld le fz nonneg missing exact dip dec cm sd])
qed

section \<open>The concrete inputs\<close>

lemma two_samples_input:
  "has_columns two_samples raw_columns" "aligned two_samples"
  "getitem two_samples ''Bx_uT'' = Inr [Num 0, Num 20]"
  "getitem two_samples ''By_uT'' = Inr [Num 0, Num 0]"
  "getitem two_samples ''Bz_uT'' = Inr [Num 40, Num 40]"
  by (simp_all add: two_samples_def has_columns_def aligned_def raw_columns_def getitem_def)

lemma eleven_rows_input:
  "has_columns (eleven_rows b5 z7) raw_columns" "aligned (eleven_rows b5 z7)"
  "getitem (eleven_rows b5 z7) ''Bx_uT'' =
     Inr [Num 20, Num 20, Num 20, Num 20, Num 20, b5, Num 20, Num 20, Num 20, Num 20, Num 20]"
  "getitem (eleven_rows b5 z7) ''By_uT'' =
     Inr [Num 0, Num 0, Num 0, Num 0, Num 0, Num 0, Num 0, Num 0, Num 0, Num 0, Num 0]"
  "getitem (eleven_rows b5 z7) ''Bz_uT'' =
     Inr [Num 40, Num 40, Num 40, Num 40, Num 40, Num 40, Num 40, z7, Num 40, Num 40, Num 40]"
  by (simp_all add: eleven_rows_def has_columns_def aligned_def raw_columns_def getitem_def)

lemma integer_samples_input:
  "has_columns integer_samples raw_columns" "aligned integer_samples"
  "getitem integer_samples ''Bx_uT'' = Inr [I64 3037000500, I64 20]"
  "getitem integer_samples ''By_uT'' = Inr [I64 0, I64 0]"
  "getitem integer_samples ''Bz_uT'' = Inr [I64 40, I64 40]"
  by (simp_all add: integer_samples_def has_columns_def aligned_def raw_columns_def getitem_def)

lemma unsigned_literal_examples:
  "unsigned_literal ''bad'' = None" "unsigned_literal ''n/a'' = None"
  "unsigned_literal ''42'' = Some (IntLit 42)"
  by (simp_all add: unsigned_literal_def decimal_digit_def)

lemma numeric_value_simps [simp]:
  "numeric_value parse (I64 w) = Some (real_of_int (sint w))"
  "numeric_value parse (Num r) = Some r"
  "numeric_value parse NaN = None"
  by (simp_all add: numeric_value_def)

lemma numeric_value_examples:
  "numeric_value unsigned_literal (Text ''bad'') = None"
  "numeric_value unsigned_literal (Text ''n/a'') = None"
  "numeric_value unsigned_literal (Text ''42'') = Some 42"
  by (simp_all add: numeric_value_def unsigned_literal_examples)

lemma squares_fit_floats:
  "\<not> int_column cx \<Longrightarrow> \<not> int_column cy \<Longrightarrow> squares_fit cx cy x y"
  by (simp add: squares_fit_def)

lemma not_int_column_Num [simp]: "\<not> int_column (Num r # c)" "\<not> int_column (NaN # c)"
  by (simp_all add: int_column_def)

lemma unfiltered_contract: "length_preserving unfiltered"
  by (simp add: length_preserving_def unfiltered_def)

lemma sqrt_400: "sqrt 400 = 20"
  using real_sqrt_abs [of 20] by simp

lemma integer_columns_stay:
  "to_numeric parse [I64 3037000500, I64 20] = [I64 3037000500, I64 20]"
  "to_numeric parse [I64 0, I64 0] = [I64 0, I64 0]"
  by (simp_all add: to_numeric_ints_id)

lemma integer_square_wraps:
  "horizontal (Int64 [3037000500, 20]) (Int64 [0, 0]) = [None, Some 20]"
  by (simp add: horizontal_def np_sqrt_def sqrt_400)

lemma integer_overflow_example:
  "and_then (derive_angles parse integer_samples) (\<lambda>df1. getitem df1 ''H_uT'')
     = Inr [NaN, Num 20]"
proof (rule derive_angles_result [OF integer_samples_input(1,3,4,5), of parse])
  fix df0 X Y Z
  assume g: "\<And>k. getitem df0 k =
            (if k \<in> set raw_columns
             then (case getitem integer_samples k of Inl e \<Rightarrow> Inl e
                   | Inr c \<Rightarrow> Inr (to_numeric parse c))
             else getitem integer_samples k)"
    and aX: "array_column df0 ''Bx_uT'' = Inr X"
    and aY: "array_column df0 ''By_uT'' = Inr Y"
    and d: "derive_angles parse integer_samples =
           Inr (setitem (setitem (setitem df0
                  ''H_uT'' (map of_float (horizontal X Y)))
                  ''Dip_Angle_deg'' (map of_float (angle_deg Z (Float64 (horizontal X Y)))))
                  ''Declination_deg'' (map of_float (angle_deg Y X)))"
  have "getitem df0 ''Bx_uT'' = Inr [I64 3037000500, I64 20]"
    by (simp add: g raw_columns_mem integer_samples_input integer_columns_stay)
  then have "array_column df0 ''Bx_uT'' = Inr (Int64 [3037000500, 20])"
    by (simp add: array_column_def as_array_def int_column_def List.map_filter_simps)
  with aX have X: "X = Int64 [3037000500, 20]" by simp
  have "getitem df0 ''By_uT'' = Inr [I64 0, I64 0]"
    by (simp add: g raw_columns_mem integer_samples_input integer_columns_stay)
  then have "array_column df0 ''By_uT'' = Inr (Int64 [0, 0])"
    by (simp add: array_column_def as_array_def int_column_def List.map_filter_simps)
  with aY have Y: "Y = Int64 [0, 0]" by simp
  show ?thesis
    by (simp only: d and_then_Inr getitem_setitem X Y integer_square_wraps)
       (simp add: integer_square_wraps)
qed


section \<open>The core of the filter\<close>

lemma weighted_sum_None_iff: "weighted_sum c k xs = None \<longleftrightarrow> None \<in> set xs"
proof (induction xs arbitrary: k)
  case Nil
  show ?case by simp
next
  case (Cons x xs)
  show ?case
  proof (cases x)
    case None
    then show ?thesis by (simp add: np_add_def)
  next
    case (Some r)
    then show ?thesis
      using Cons.IH [of "Suc k"] by (cases "weighted_sum c (Suc k) xs") (auto simp: np_add_def)
  qed
qed

lemma length_fit_edge [simp]: "length (fit_edge polyval xs p js) = length js"
  by (simp add: fit_edge_def split: option.splits)

lemma those_None_iff: "those xs = None \<longleftrightarrow> None \<in> set xs"
  by (induction xs) (auto split: option.splits)

lemma fit_edge_nth:
  "None \<notin> set xs \<Longrightarrow> j < length js \<Longrightarrow> fit_edge polyval xs p js ! j \<noteq> None"
proof -
  assume a: "None \<notin> set xs" and j: "j < length js"
  from a have "those xs \<noteq> None" by (simp add: those_None_iff)
  then obtain ys where "those xs = Some ys" by auto
  then show ?thesis using j by (simp add: fit_edge_def)
qed

lemma length_savgol_core:
  "w \<le> length xs \<Longrightarrow> length (savgol_core coeffs polyval xs w p) = length xs"
  by (simp add: savgol_core_def Let_def)

lemma savgol_core_nth:
  assumes w: "w \<le> length xs" and e: "\<not> edge_nan xs w" and i: "i < length xs"
  shows "savgol_core coeffs polyval xs w p ! i = None \<longleftrightarrow>
           w div 2 \<le> i \<and> i < length xs - w div 2
         \<and> None \<in> set (take w (drop (i - w div 2) xs))"
proof -
  let ?h = "w div 2" and ?n = "length xs"
  let ?A = "fit_edge polyval (take w xs) p [0..<?h]"
  let ?B = "map (\<lambda>j. weighted_sum (coeffs w p) 0 (take w (drop (j - ?h) xs))) [?h..<?n - ?h]"
  let ?C = "fit_edge polyval (drop (?n - w) xs) p [w - ?h..<w]"
  have s: "savgol_core coeffs polyval xs w p = ?A @ ?B @ ?C"
    by (simp add: savgol_core_def Let_def)
  have e1: "None \<notin> set (take w xs)" and e2: "None \<notin> set (drop (?n - w) xs)"
    using e by (simp_all add: edge_nan_def)
  have hw: "2 * ?h \<le> w" by simp
  consider (head_part) "i < ?h" | (middle) "?h \<le> i" "i < ?n - ?h" | (tail_part) "?n - ?h \<le> i"
    by linarith
  then show ?thesis
  proof cases
    case head_part
    then have "(?A @ ?B @ ?C) ! i = ?A ! i" by (simp add: nth_append)
    moreover have "?A ! i \<noteq> None" using head_part by (intro fit_edge_nth e1) simp
    ultimately show ?thesis using head_part by (simp add: s)
  next
    case middle
    have lA: "length ?A = ?h" by simp
    have lB: "length ?B = ?n - ?h - ?h" by simp
    have ib: "i - ?h < ?n - ?h - ?h" using middle by linarith
    have "(?A @ ?B @ ?C) ! i = (?B @ ?C) ! (i - ?h)"
      using middle(1) by (simp only: nth_append lA) simp
    also have "\<dots> = ?B ! (i - ?h)"
      using ib by (simp only: nth_append lB) simp
    also have "\<dots> = weighted_sum (coeffs w p) 0 (take w (drop (?h + (i - ?h) - ?h) xs))"
      using ib by (simp only: nth_map_upt) 
    also have "?h + (i - ?h) - ?h = i - ?h" by simp
    finally show ?thesis using middle by (simp add: s weighted_sum_None_iff)
  next
    case tail_part
    have l: "length (?A @ ?B) = ?n - ?h" using w hw by simp
    have "(?A @ ?B @ ?C) ! i = ((?A @ ?B) @ ?C) ! i" by simp
    also have "\<dots> = ?C ! (i - (?n - ?h))"
      using tail_part by (simp only: nth_append l) simp
    finally have c: "(?A @ ?B @ ?C) ! i = ?C ! (i - (?n - ?h))" .
    have "i - (?n - ?h) < length [w - ?h..<w]" using tail_part i w hw by simp
    then have "?C ! (i - (?n - ?h)) \<noteq> None" by (intro fit_edge_nth e2)
    then show ?thesis using tail_part c by (simp add: s)
  qed
qed

lemma savgol_core_missing:
  assumes w: "w \<le> length xs" and pos: "0 < w" and e: "\<not> edge_nan xs w"
    and i: "i < length xs" and m: "xs ! i = None"
  shows "savgol_core coeffs polyval xs w p ! i = None"
proof -
  have ni: "\<not> (i < w \<or> length xs - w \<le> i)"
    using e i m by (auto simp: edge_nan_iff)
  have hw: "w div 2 < w" using pos by simp
  from ni have a: "w div 2 \<le> i" "i < length xs - w div 2" using hw by linarith+
  have "drop (i - w div 2) xs ! (w div 2) = xs ! i" using a i by simp
  moreover have "w div 2 < length (take w (drop (i - w div 2) xs))" using a hw i by simp
  ultimately have "None \<in> set (take w (drop (i - w div 2) xs))"
    using m by (metis nth_mem nth_take hw)
  with a show ?thesis by (simp add: savgol_core_nth [OF w e i])
qed

lemma savgol_core_contract: "length_preserving (savgol_core coeffs polyval)"
  by (simp add: length_preserving_def length_savgol_core)

lemma cell_value_of_float [simp]: "cell_value (of_float a) = a"
  by (cases a) simp_all

lemma map_cell_value_of_float [simp]: "map cell_value (map of_float xs) = xs"
  by (induction xs) simp_all


section \<open>The eleven-sample frames\<close>

lemma below_eleven:
  "i < 11 \<Longrightarrow> i = 0 \<or> i = 1 \<or> i = 2 \<or> i = 3 \<or> i = 4 \<or> i = 5 \<or> i = 6 \<or> i = 7 \<or> i = 8
     \<or> i = 9 \<or> i = (10::nat)"
  by arith

lemma eleven_nth:
  assumes "i < 11"
  shows "[a, a, a, a, a, b, a, a, a, a, a] ! i = (if i = 5 then b else a)"
    and "[a, a, a, a, a, a, a, b, a, a, a] ! i = (if i = 7 then b else a)"
    and "[a, a, a, a, a, a, a, a, a, a, a] ! i = a"
  using below_eleven [OF assms] by auto

lemma not_int_column_to_numeric_Num: "\<not> int_column (to_numeric parse (Num r # c))"
  by (simp add: to_numeric_def Let_def)

lemma eleven_rows_dip:
  obtains df1 ds where
    "derive_angles parse (eleven_rows b5 z7) = Inr df1"
    "getitem df1 ''Dip_Angle_deg'' = Inr (map of_float ds)"
    "length ds = 11"
    "\<And>i. i < 11 \<Longrightarrow>
       (ds ! i = None \<longleftrightarrow> (i = 5 \<and> numeric_value parse b5 = None)
                          \<or> (i = 7 \<and> numeric_value parse z7 = None))"
proof (rule derived_cells [OF eleven_rows_input, of b5 z7 parse])
  fix df0 df1 hs ds es
  let ?bx = "[Num 20, Num 20, Num 20, Num 20, Num 20, b5, Num 20, Num 20, Num 20, Num 20, Num 20]"
  let ?by = "[Num 0, Num 0, Num 0, Num 0, Num 0, Num 0, Num 0, Num 0, Num 0, Num 0, Num 0]"
  let ?bz = "[Num 40, Num 40, Num 40, Num 40, Num 40, Num 40, Num 40, z7, Num 40, Num 40, Num 40]"
  assume df1: "df1 = setitem (setitem (setitem df0 ''H_uT'' (map of_float hs))
                      ''Dip_Angle_deg'' (map of_float ds))
                      ''Declination_deg'' (map of_float es)"
    and d: "derive_angles parse (eleven_rows b5 z7) = Inr df1"
    and ld: "length ds = nrows (eleven_rows b5 z7)"
    and missing: "\<And>i. i < nrows (eleven_rows b5 z7) \<Longrightarrow>
        numeric_value parse (?bx ! i) = None \<or> numeric_value parse (?by ! i) = None \<Longrightarrow>
        hs ! i = None"
    and exact: "\<And>i x y. i < nrows (eleven_rows b5 z7) \<Longrightarrow>
        numeric_value parse (?bx ! i) = Some x \<Longrightarrow> numeric_value parse (?by ! i) = Some y \<Longrightarrow>
        squares_fit (to_numeric parse ?bx) (to_numeric parse ?by) x y \<Longrightarrow>
        hs ! i = Some (hypot x y)"
    and dipv: "\<And>i. i < nrows (eleven_rows b5 z7) \<Longrightarrow>
        ds ! i = np_degrees (np_arctan2 (numeric_value parse (?bz ! i)) (hs ! i))"
  have n: "nrows (eleven_rows b5 z7) = 11" by (simp add: eleven_rows_def)
  have sf: "\<And>x y. squares_fit (to_numeric parse ?bx) (to_numeric parse ?by) x y"
    by (intro squares_fit_floats not_int_column_to_numeric_Num)
  have hN: "\<And>i. i < 11 \<Longrightarrow> hs ! i = None \<longleftrightarrow> i = 5 \<and> numeric_value parse b5 = None"
  proof -
    fix i :: nat assume i: "i < 11"
    have y: "numeric_value parse (?by ! i) = Some 0" by (simp add: eleven_nth(3) [OF i])
    show "hs ! i = None \<longleftrightarrow> i = 5 \<and> numeric_value parse b5 = None"
    proof (cases "numeric_value parse (?bx ! i)")
      case None
      then have "hs ! i = None" using i by (intro missing) (simp_all add: n)
      moreover from None have "i = 5 \<and> numeric_value parse b5 = None"
        by (simp add: eleven_nth(1) [OF i] split: if_splits)
      ultimately show ?thesis by simp
    next
      case (Some x)
      have "hs ! i = Some (hypot x 0)"
        using i by (intro exact Some y sf) (simp add: n)
      moreover from Some have "\<not> (i = 5 \<and> numeric_value parse b5 = None)"
        by (simp add: eleven_nth(1) [OF i] split: if_splits)
      ultimately show ?thesis by simp
    qed
  qed
  have dN: "\<And>i. i < 11 \<Longrightarrow>
       (ds ! i = None \<longleftrightarrow> (i = 5 \<and> numeric_value parse b5 = None)
                          \<or> (i = 7 \<and> numeric_value parse z7 = None))"
  proof -
    fix i :: nat assume i: "i < 11"
    have z: "numeric_value parse (?bz ! i) = None \<longleftrightarrow> i = 7 \<and> numeric_value parse z7 = None"
      by (simp add: eleven_nth(2) [OF i])
    have "ds ! i = None \<longleftrightarrow> numeric_value parse (?bz ! i) = None \<or> hs ! i = None"
      using i by (simp add: dipv n np_angle_None_iff)
    then show "ds ! i = None \<longleftrightarrow> (i = 5 \<and> numeric_value parse b5 = None)
                          \<or> (i = 7 \<and> numeric_value parse z7 = None)"
      by (simp only: z hN [OF i]) blast
  qed
  have g: "getitem df1 ''Dip_Angle_deg'' = Inr (map of_float ds)" by (simp add: df1)
  have l: "length ds = 11" by (simp only: ld n)
  show thesis by (rule that [OF d g l dN])
qed

lemma eleven_edges:
  assumes "length ds = 11"
  shows "edge_nan ds (window_length 11) \<longleftrightarrow> (\<exists>i<11. i \<noteq> 5 \<and> ds ! i = None)"
proof -
  have w: "window_length 11 = 5" by (simp add: window_length_def)
  have "\<And>i::nat. i < 11 \<Longrightarrow> (i < 5 \<or> 11 - 5 \<le> i) \<longleftrightarrow> i \<noteq> 5" by arith
  then show ?thesis by (simp only: w edge_nan_iff assms) blast
qed

lemma getitem_colnames: "getitem df k = Inr c \<Longrightarrow> k \<in> set (colnames df)"
proof -
  assume "getitem df k = Inr c"
  then have "map_of (cols df) k = Some c" by (simp add: getitem_map_of)
  then have "(k, c) \<in> set (cols df)" by (rule map_of_SomeD)
  then show ?thesis by (force simp: colnames_def)
qed


section \<open>Missing values under the window\<close>

lemma numeric_cell_missing: "is_int c \<or> is_float c \<Longrightarrow> cell_value c = None \<longleftrightarrow> c = NaN"
  by (cases c) simp_all

lemma to_numeric_nth_NaN_iff:
  "i < length c \<Longrightarrow> to_numeric parse c ! i = NaN \<longleftrightarrow> numeric_value parse (c ! i) = None"
proof
  assume "i < length c" and "to_numeric parse c ! i = NaN"
  then have "cell_value (to_numeric parse c ! i) = None" by simp
  then show "numeric_value parse (c ! i) = None"
    using \<open>i < length c\<close> by (simp add: to_numeric_nth_value)
next
  assume "i < length c" and "numeric_value parse (c ! i) = None"
  then show "to_numeric parse c ! i = NaN" by (rule to_numeric_nth_NaN)
qed

lemma map_cell_value_to_numeric:
  "map cell_value (to_numeric parse c) = map (numeric_value parse) c"
  by (rule nth_equalityI) (simp_all add: to_numeric_nth_value)

lemma missing_near_of_float:
  "missing_near (map of_float xs) w i \<longleftrightarrow> None \<in> set (take w (drop (i - w div 2) xs))"
proof -
  have "take w (drop (i - w div 2) (map of_float xs))
          = map of_float (take w (drop (i - w div 2) xs))"
    by (simp add: take_map drop_map)
  moreover have "\<And>S. NaN \<in> of_float ` S \<longleftrightarrow> None \<in> S"
  proof
    fix S assume "NaN \<in> of_float ` S"
    then obtain a where a: "a \<in> S" "of_float a = NaN" by (auto simp: image_iff)
    then have "a = None" by (simp add: of_float_NaN)
    with a show "None \<in> S" by simp
  next
    fix S :: "float set" assume "None \<in> S"
    then have "of_float None \<in> of_float ` S" by (rule imageI)
    then show "NaN \<in> of_float ` S" by simp
  qed
  ultimately show ?thesis by (simp add: missing_near_def)
qed

lemma missing_near_numeric:
  assumes "numeric_column c"
  shows "missing_near c w i \<longleftrightarrow> None \<in> set (take w (drop (i - w div 2) (map cell_value c)))"
proof -
  let ?s = "take w (drop (i - w div 2) c)"
  have t: "take w (drop (i - w div 2) (map cell_value c)) = map cell_value ?s"
    by (simp add: take_map drop_map)
  have sub: "set ?s \<subseteq> set c" by (meson set_take_subset set_drop_subset subset_trans)
  have "\<And>x. x \<in> set c \<Longrightarrow> is_int x \<or> is_float x"
    using assms by (auto simp: numeric_column_def list_all_iff)
  then have v: "\<And>x. x \<in> set ?s \<Longrightarrow> cell_value x = None \<longleftrightarrow> x = NaN"
    using sub by (intro numeric_cell_missing) blast
  have "None \<in> cell_value ` set ?s \<longleftrightarrow> NaN \<in> set ?s"
  proof
    assume "None \<in> cell_value ` set ?s"
    then obtain x where x: "x \<in> set ?s" "cell_value x = None" by (auto simp: image_iff)
    then have "x = NaN" by (simp add: v)
    with x show "NaN \<in> set ?s" by simp
  next
    assume "NaN \<in> set ?s"
    then have "cell_value NaN \<in> cell_value ` set ?s" by (rule imageI)
    then show "None \<in> cell_value ` set ?s" by simp
  qed
  then show ?thesis by (simp add: missing_near_def t)
qed

lemma smoothed_cell:
  assumes "w \<le> length xs" and "\<not> edge_nan xs w" and "i < length xs"
    and "missing_near c w i \<longleftrightarrow> None \<in> set (take w (drop (i - w div 2) xs))"
  shows "map of_float (savgol_core coeffs polyval xs w p) ! i = NaN \<longleftrightarrow>
           w div 2 \<le> i \<and> i < length xs - w div 2 \<and> missing_near c w i"
proof -
  have "i < length (savgol_core coeffs polyval xs w p)"
    using assms(1,3) by (simp add: length_savgol_core)
  then have "map of_float (savgol_core coeffs polyval xs w p) ! i
               = of_float (savgol_core coeffs polyval xs w p ! i)" by simp
  then show ?thesis
    by (simp only: of_float_NaN savgol_core_nth [OF assms(1-3)] assms(4))
qed

lemma smoothed_cell_missing:
  assumes "w \<le> length xs" and "0 < w" and "\<not> edge_nan xs w" and "i < length xs"
    and "xs ! i = None"
  shows "map of_float (savgol_core coeffs polyval xs w p) ! i = NaN"
proof -
  have "i < length (savgol_core coeffs polyval xs w p)"
    using assms(1,4) by (simp add: length_savgol_core)
  then show ?thesis by (simp add: savgol_core_missing [OF assms])
qed

section \<open>The claims\<close>

text \<open>
  C1 (as stated it fails: the source caps the window at 21).  For every \<open>n > 10\<close> the
  filter is applied with window \<open>max(5, min(21, c))\<close>, where \<open>c\<close> is \<open>n // 4\<close> if that is
  odd and \<open>n // 4 + 1\<close> otherwise; this is the uncapped value of the specification capped
  at 21, and for \<open>n = 200\<close> it is 21.
\<close>

theorem window_selection_capped:
  assumes "10 < n"
  shows "select_branch n =
           Smoothed (max 5 (min 21 (if odd (n div 4) then n div 4 else n div 4 + 1)))
       \<and> select_branch n = Smoothed (min 21 (spec_window n))
       \<and> select_branch 200 = Smoothed 21"
proof (intro conjI)
  have "window_length n = max 5 (min 21 (if odd (n div 4) then n div 4 else n div 4 + 1))"
    by (simp add: window_length_def odd_iff_mod_2_eq_one)
  then show "select_branch n =
           Smoothed (max 5 (min 21 (if odd (n div 4) then n div 4 else n div 4 + 1)))"
    using assms by (simp only: select_branch_eq if_True)
  show "select_branch n = Smoothed (min 21 (spec_window n))"
    using assms by (simp only: select_branch_eq if_True window_length_capped)
  show "select_branch 200 = Smoothed 21"
    by (simp add: select_branch_eq window_length_200)
qed

theorem window_selection_capped_witness:
  "(10::nat) < 50 \<and> select_branch 50 = Smoothed 13 \<and> min 21 (spec_window 50) = 13"
proof -
  have h: "(10::nat) < 50" by simp
  have s: "min 21 (spec_window 50) = 13" by (simp add: spec_window_def)
  from window_selection_capped [OF h] have "select_branch 50 = Smoothed (min 21 (spec_window 50))"
    by (rule conjunct1 [OF conjunct2])
  with h s show ?thesis by (simp only: simp_thms)
qed

theorem window_200_counterexample:
  "(10::nat) < 200 \<and> select_branch 200 \<noteq> Smoothed (spec_window 200)
     \<and> spec_window 200 = 51 \<and> select_branch 200 \<noteq> Smoothed 51"
  by (simp add: select_branch_eq window_length_200 spec_window_200)



text \<open>
  C4.  For a frame of at most 10 rows the branch that copies is taken, whatever the
  filter: the result is the frame \<open>df1\<close> of the derivation with three columns added, the
  columns \<open>Dip_Angle_smooth\<close>, \<open>Declination_smooth\<close> and \<open>Bz_smooth\<close> are the very columns
  \<open>Dip_Angle_deg\<close>, \<open>Declination_deg\<close> and \<open>Bz_uT\<close> that the derivation produced, one cell
  per sample, and every other column of \<open>df1\<close> is kept.
\<close>

theorem short_series_copied:
  assumes "has_columns df raw_columns" and "aligned df"
    and "getitem df ''Bx_uT'' = Inr cbx"
    and "getitem df ''By_uT'' = Inr cby"
    and "getitem df ''Bz_uT'' = Inr cbz"
    and short: "nrows df \<le> 10"
  shows "select_branch (nrows df) = TooFewPoints
       \<and> (\<exists>df1 df2 dip dec bz.
             derive_angles parse df = Inr df1
           \<and> calculate_magnetic_parameters parse fit df = Inr df2
           \<and> getitem df1 ''Dip_Angle_deg'' = Inr dip
           \<and> getitem df1 ''Declination_deg'' = Inr dec
           \<and> getitem df1 ''Bz_uT'' = Inr bz
           \<and> bz = to_numeric parse cbz
           \<and> length dip = nrows df \<and> length dec = nrows df \<and> length bz = nrows df
           \<and> getitem df2 ''Dip_Angle_smooth'' = Inr dip
           \<and> getitem df2 ''Declination_smooth'' = Inr dec
           \<and> getitem df2 ''Bz_smooth'' = Inr bz
           \<and> (\<forall>k. k \<notin> set smoothed_columns \<longrightarrow> getitem df2 k = getitem df1 k)
           \<and> nrows df2 = nrows df)"
proof (rule calculate_cells [OF assms(1-5), of parse fit])
  fix df0 df1 hs ds es
  assume n0: "nrows df0 = nrows df"
    and g: "\<And>k. getitem df0 k =
            (if k \<in> set raw_columns
             then (case getitem df k of Inl e \<Rightarrow> Inl e | Inr c \<Rightarrow> Inr (to_numeric parse c))
             else getitem df k)"
    and df1: "df1 = setitem (setitem (setitem df0 ''H_uT'' (map of_float hs))
                      ''Dip_Angle_deg'' (map of_float ds))
                      ''Declination_deg'' (map of_float es)"
    and d: "derive_angles parse df = Inr df1"
    and ld: "length ds = nrows df" and le: "length es = nrows df"
    and cm: "calculate_magnetic_parameters parse fit df = smooth fit df1"
    and s: "nrows df \<le> 10 \<Longrightarrow> smooth fit df1 =
           Inr (setitem (setitem (setitem df1 ''Dip_Angle_smooth'' (map of_float ds))
                  ''Declination_smooth'' (map of_float es))
                  ''Bz_smooth'' (to_numeric parse cbz))"
  let ?df2 = "setitem (setitem (setitem df1 ''Dip_Angle_smooth'' (map of_float ds))
                  ''Declination_smooth'' (map of_float es))
                  ''Bz_smooth'' (to_numeric parse cbz)"
  have b: "select_branch (nrows df) = TooFewPoints"
    using short by (simp add: select_branch_def)
  have c: "calculate_magnetic_parameters parse fit df = Inr ?df2"
    by (simp only: cm s [OF short])
  have 1: "getitem df1 ''Dip_Angle_deg'' = Inr (map of_float ds)" by (simp add: df1)
  have 2: "getitem df1 ''Declination_deg'' = Inr (map of_float es)" by (simp add: df1)
  have 3: "getitem df1 ''Bz_uT'' = Inr (to_numeric parse cbz)"
    by (simp add: df1 g raw_columns_mem assms(5))
  have l1: "length (map of_float ds) = nrows df" by (simp add: ld)
  have l2: "length (map of_float es) = nrows df" by (simp add: le)
  have l3: "length (to_numeric parse cbz) = nrows df"
    using aligned_getitem [OF assms(2) assms(5)] by simp
  have 4: "getitem ?df2 ''Dip_Angle_smooth'' = Inr (map of_float ds)" by simp
  have 5: "getitem ?df2 ''Declination_smooth'' = Inr (map of_float es)" by simp
  have 6: "getitem ?df2 ''Bz_smooth'' = Inr (to_numeric parse cbz)" by simp
  have 7: "\<forall>k. k \<notin> set smoothed_columns \<longrightarrow> getitem ?df2 k = getitem df1 k"
    by (simp add: smoothed_columns_def)
  have 8: "nrows ?df2 = nrows df" by (simp add: df1 n0)
  show ?thesis
    apply (intro conjI)
     apply (rule b)
    apply (rule exI [of _ df1])
    apply (rule exI [of _ ?df2])
    apply (rule exI [of _ "map of_float ds"])
    apply (rule exI [of _ "map of_float es"])
    apply (rule exI [of _ "to_numeric parse cbz"])
    apply (intro conjI)
                 apply (rule d)
                apply (rule c)
               apply (rule 1)
              apply (rule 2)
             apply (rule 3)
            apply (rule refl)
           apply (rule l1)
          apply (rule l2)
         apply (rule l3)
        apply (rule 4)
       apply (rule 5)
      apply (rule 6)
     apply (rule 7)
    apply (rule 8)
    done
qed

theorem short_series_copied_witness:
  "has_columns two_samples raw_columns \<and> aligned two_samples \<and> nrows two_samples \<le> 10
   \<and> select_branch (nrows two_samples) = TooFewPoints
   \<and> (\<exists>df1 df2 dip dec bz.
         derive_angles unsigned_literal two_samples = Inr df1
       \<and> calculate_magnetic_parameters unsigned_literal unfiltered two_samples = Inr df2
       \<and> getitem df1 ''Dip_Angle_deg'' = Inr dip
       \<and> getitem df1 ''Declination_deg'' = Inr dec
       \<and> getitem df1 ''Bz_uT'' = Inr bz
       \<and> bz = [Num 40, Num 40]
       \<and> length dip = 2 \<and> length dec = 2
       \<and> getitem df2 ''Dip_Angle_smooth'' = Inr dip
       \<and> getitem df2 ''Declination_smooth'' = Inr dec
       \<and> getitem df2 ''Bz_smooth'' = Inr bz
       \<and> getitem df2 ''H_uT'' = getitem df1 ''H_uT''
       \<and> nrows df2 = 2)"
proof -
  have n: "nrows two_samples \<le> 10" by (simp add: two_samples_def)
  have n2: "nrows two_samples = 2" by (simp add: two_samples_def)
  have tz: "to_numeric unsigned_literal [Num 40, Num 40] = [Num 40, Num 40]"
    by (simp add: to_numeric_floats_id)
  note t = short_series_copied [OF two_samples_input n, of unsigned_literal unfiltered]
  from conjunct2 [OF t] obtain df1 df2 dip dec bz where
    a: "derive_angles unsigned_literal two_samples = Inr df1"
      "calculate_magnetic_parameters unsigned_literal unfiltered two_samples = Inr df2"
      "getitem df1 ''Dip_Angle_deg'' = Inr dip"
      "getitem df1 ''Declination_deg'' = Inr dec"
      "getitem df1 ''Bz_uT'' = Inr bz"
    and bz: "bz = to_numeric unsigned_literal [Num 40, Num 40]"
    and l: "length dip = nrows two_samples" "length dec = nrows two_samples"
      "length bz = nrows two_samples"
    and s: "getitem df2 ''Dip_Angle_smooth'' = Inr dip"
      "getitem df2 ''Declination_smooth'' = Inr dec"
      "getitem df2 ''Bz_smooth'' = Inr bz"
    and k: "\<forall>k. k \<notin> set smoothed_columns \<longrightarrow> getitem df2 k = getitem df1 k"
    and nr: "nrows df2 = nrows two_samples"
    by (elim exE conjE)
  have bz': "bz = [Num 40, Num 40]" by (simp only: bz tz)
  have l': "length dip = 2" "length dec = 2" using l by (simp_all only: n2)
  have h: "getitem df2 ''H_uT'' = getitem df1 ''H_uT''"
    using k [rule_format, of "''H_uT''"] by (simp add: smoothed_columns_def)
  have nr': "nrows df2 = 2" using nr by (simp only: n2)
  show ?thesis
    apply (intro conjI)
        apply (rule two_samples_input(1))
       apply (rule two_samples_input(2))
      apply (rule n)
     apply (rule conjunct1 [OF t])
    apply (rule exI [of _ df1])
    apply (rule exI [of _ df2])
    apply (rule exI [of _ dip])
    apply (rule exI [of _ dec])
    apply (rule exI [of _ bz])
    apply (intro conjI)
               apply (rule a s bz' l' h nr')+
    done
qed

text \<open>
  C5.  For every sample whose \<open>bx\<close> and \<open>by\<close> are numbers, \<open>declination_deg\<close> is a number
  in \<open>(-180, 180]\<close>, and it is 0 when \<open>bx = by = 0\<close>; the derivation does not fail there.
  A sample with a missing \<open>bx\<close> or \<open>by\<close> has a missing declination.
\<close>

theorem declination_range_all_samples:
  assumes "has_columns df raw_columns" and "aligned df"
    and "getitem df ''Bx_uT'' = Inr cbx"
    and "getitem df ''By_uT'' = Inr cby"
    and "getitem df ''Bz_uT'' = Inr cbz"
  shows "\<exists>df1 ec.
           derive_angles parse df = Inr df1
         \<and> getitem df1 ''Declination_deg'' = Inr ec
         \<and> length ec = nrows df
         \<and> (\<forall>i<nrows df.
               (\<forall>x y. numeric_value parse (cbx ! i) = Some x
                       \<and> numeric_value parse (cby ! i) = Some y \<longrightarrow>
                     (\<exists>d. ec ! i = Num d \<and> - 180 < d \<and> d \<le> 180
                          \<and> (x = 0 \<and> y = 0 \<longrightarrow> d = 0)))
             \<and> (numeric_value parse (cbx ! i) = None
                  \<or> numeric_value parse (cby ! i) = None \<longrightarrow> ec ! i = NaN))"
proof (rule derived_cells [OF assms, of parse])
  fix df0 df1 hs ds es
  assume df1: "df1 = setitem (setitem (setitem df0 ''H_uT'' (map of_float hs))
                      ''Dip_Angle_deg'' (map of_float ds))
                      ''Declination_deg'' (map of_float es)"
    and d: "derive_angles parse df = Inr df1"
    and le: "length es = nrows df"
    and dec: "\<And>i. i < nrows df \<Longrightarrow>
        es ! i = np_degrees (np_arctan2 (numeric_value parse (cby ! i))
                                        (numeric_value parse (cbx ! i)))"
  define ec where "ec = map of_float es"
  have ge: "getitem df1 ''Declination_deg'' = Inr ec" by (simp add: df1 ec_def)
  have lec: "length ec = nrows df" by (simp add: ec_def le)
  have ei: "\<And>i. i < nrows df \<Longrightarrow>
        ec ! i = of_float (np_degrees (np_arctan2 (numeric_value parse (cby ! i))
                                                  (numeric_value parse (cbx ! i))))"
    by (simp add: ec_def le dec)
  have main: "\<forall>i<nrows df.
               (\<forall>x y. numeric_value parse (cbx ! i) = Some x
                       \<and> numeric_value parse (cby ! i) = Some y \<longrightarrow>
                     (\<exists>d. ec ! i = Num d \<and> - 180 < d \<and> d \<le> 180
                          \<and> (x = 0 \<and> y = 0 \<longrightarrow> d = 0)))
             \<and> (numeric_value parse (cbx ! i) = None
                  \<or> numeric_value parse (cby ! i) = None \<longrightarrow> ec ! i = NaN)"
  proof (intro allI impI conjI)
    fix i x y
    assume i: "i < nrows df"
      and xy: "numeric_value parse (cbx ! i) = Some x \<and> numeric_value parse (cby ! i) = Some y"
    have v: "ec ! i = Num (degrees (arctan2 y x))"
      using xy by (simp add: ei [OF i] np_angle_Some)
    have z: "x = 0 \<and> y = 0 \<longrightarrow> degrees (arctan2 y x) = 0"
      by (simp add: arctan2_origin degrees_def)
    show "\<exists>d. ec ! i = Num d \<and> - 180 < d \<and> d \<le> 180 \<and> (x = 0 \<and> y = 0 \<longrightarrow> d = 0)"
      apply (rule exI [of _ "degrees (arctan2 y x)"])
      apply (intro conjI)
         apply (rule v)
        apply (rule conjunct1 [OF declination_range])
       apply (rule conjunct2 [OF declination_range])
      apply (rule z)
      done
  next
    fix i
    assume i: "i < nrows df"
      and m: "numeric_value parse (cbx ! i) = None \<or> numeric_value parse (cby ! i) = None"
    from m have "np_degrees (np_arctan2 (numeric_value parse (cby ! i))
                                        (numeric_value parse (cbx ! i))) = None"
      by (intro np_angle_None) auto
    then show "ec ! i = NaN" by (simp add: ei [OF i])
  qed
  show ?thesis
    apply (intro exI conjI)
       apply (rule d)
      apply (rule ge)
     apply (rule lec)
    apply (rule main)
    done
qed

theorem declination_range_all_samples_witness:
  "has_columns two_samples raw_columns \<and> aligned two_samples
   \<and> (\<exists>df1 ec.
         derive_angles unsigned_literal two_samples = Inr df1
       \<and> getitem df1 ''Declination_deg'' = Inr ec
       \<and> ec ! 0 = Num 0
       \<and> (\<exists>d. ec ! 1 = Num d \<and> - 180 < d \<and> d \<le> 180))"
proof -
  have n: "nrows two_samples = 2" by (simp add: two_samples_def)
  from declination_range_all_samples [OF two_samples_input, of unsigned_literal]
  obtain df1 ec where
    d: "derive_angles unsigned_literal two_samples = Inr df1" and
    ge: "getitem df1 ''Declination_deg'' = Inr ec" and
    all: "\<forall>i<nrows two_samples.
               (\<forall>x y. numeric_value unsigned_literal ([Num 0, Num 20] ! i) = Some x
                       \<and> numeric_value unsigned_literal ([Num 0, Num 0] ! i) = Some y \<longrightarrow>
                     (\<exists>d. ec ! i = Num d \<and> - 180 < d \<and> d \<le> 180
                          \<and> (x = 0 \<and> y = 0 \<longrightarrow> d = 0)))
             \<and> (numeric_value unsigned_literal ([Num 0, Num 20] ! i) = None
                  \<or> numeric_value unsigned_literal ([Num 0, Num 0] ! i) = None \<longrightarrow> ec ! i = NaN)"
    by (elim exE conjE)
  have "\<exists>d. ec ! 0 = Num d \<and> - 180 < d \<and> d \<le> 180 \<and> ((0::real) = 0 \<and> (0::real) = 0 \<longrightarrow> d = 0)"
    using all [rule_format, of 0] n by simp
  then have z: "ec ! 0 = Num 0" by auto
  have "\<exists>d. ec ! 1 = Num d \<and> - 180 < d \<and> d \<le> 180 \<and> ((20::real) = 0 \<and> (0::real) = 0 \<longrightarrow> d = 0)"
    using all [rule_format, of 1] n by simp
  then have o: "\<exists>d. ec ! 1 = Num d \<and> - 180 < d \<and> d \<le> 180" by auto
  show ?thesis
    apply (intro conjI)
      apply (rule two_samples_input(1))
     apply (rule two_samples_input(2))
    apply (rule exI [of _ df1])
    apply (rule exI [of _ ec])
    apply (intro conjI)
       apply (rule d)
      apply (rule ge)
     apply (rule z)
    apply (rule o)
    done
qed

text \<open>
  C6.  For every sample whose \<open>h_ut\<close> is a positive number: where \<open>bz\<close> is a number,
  \<open>dip_deg\<close> is a number in \<open>[-90, 90]\<close> with \<open>tan(radians(dip_deg)) = bz / h_ut\<close>; where
  \<open>bz\<close> is missing, \<open>dip_deg\<close> is missing.  (\<open>h_ut\<close> is \<open>hypot(bx, by)\<close> for numeric
  \<open>bx\<close> and \<open>by\<close> whose squares do not overflow 64-bit integer arithmetic.)
\<close>

theorem dip_range_positive_h:
  assumes "has_columns df raw_columns" and "aligned df"
    and "getitem df ''Bx_uT'' = Inr cbx"
    and "getitem df ''By_uT'' = Inr cby"
    and "getitem df ''Bz_uT'' = Inr cbz"
  shows "\<exists>df1 hc dc.
           derive_angles parse df = Inr df1
         \<and> getitem df1 ''H_uT'' = Inr hc
         \<and> getitem df1 ''Dip_Angle_deg'' = Inr dc
         \<and> (\<forall>i<nrows df. \<forall>hv. hc ! i = Num hv \<and> 0 < hv \<longrightarrow>
               (\<forall>z. numeric_value parse (cbz ! i) = Some z \<longrightarrow>
                  (\<exists>d. dc ! i = Num d \<and> - 90 \<le> d \<and> d \<le> 90 \<and> tan (radians d) = z / hv))
             \<and> (numeric_value parse (cbz ! i) = None \<longrightarrow> dc ! i = NaN))
         \<and> (\<forall>i<nrows df. \<forall>x y. numeric_value parse (cbx ! i) = Some x
                                 \<and> numeric_value parse (cby ! i) = Some y
                                 \<and> squares_fit (to_numeric parse cbx) (to_numeric parse cby) x y
                                 \<longrightarrow>
               hc ! i = Num (hypot x y))"
proof (rule derived_cells [OF assms, of parse])
  fix df0 df1 hs ds es
  assume df1: "df1 = setitem (setitem (setitem df0 ''H_uT'' (map of_float hs))
                      ''Dip_Angle_deg'' (map of_float ds))
                      ''Declination_deg'' (map of_float es)"
    and d: "derive_angles parse df = Inr df1"
    and lh: "length hs = nrows df" and ld: "length ds = nrows df"
    and exact: "\<And>i x y. i < nrows df \<Longrightarrow>
        numeric_value parse (cbx ! i) = Some x \<Longrightarrow> numeric_value parse (cby ! i) = Some y \<Longrightarrow>
        squares_fit (to_numeric parse cbx) (to_numeric parse cby) x y \<Longrightarrow>
        hs ! i = Some (hypot x y)"
    and dipv: "\<And>i. i < nrows df \<Longrightarrow>
        ds ! i = np_degrees (np_arctan2 (numeric_value parse (cbz ! i)) (hs ! i))"
  define hc where "hc = map of_float hs"
  define dc where "dc = map of_float ds"
  have gh: "getitem df1 ''H_uT'' = Inr hc" by (simp add: df1 hc_def)
  have gd: "getitem df1 ''Dip_Angle_deg'' = Inr dc" by (simp add: df1 dc_def)
  have hi: "\<And>i. i < nrows df \<Longrightarrow> hc ! i = of_float (hs ! i)" by (simp add: hc_def lh)
  have di: "\<And>i. i < nrows df \<Longrightarrow>
        dc ! i = of_float (np_degrees (np_arctan2 (numeric_value parse (cbz ! i)) (hs ! i)))"
    by (simp add: dc_def ld dipv)
  have dip: "\<forall>i<nrows df. \<forall>hv. hc ! i = Num hv \<and> 0 < hv \<longrightarrow>
               (\<forall>z. numeric_value parse (cbz ! i) = Some z \<longrightarrow>
                  (\<exists>d. dc ! i = Num d \<and> - 90 \<le> d \<and> d \<le> 90 \<and> tan (radians d) = z / hv))
             \<and> (numeric_value parse (cbz ! i) = None \<longrightarrow> dc ! i = NaN)"
  proof (intro allI impI conjI)
    fix i hv z
    assume i: "i < nrows df" and h: "hc ! i = Num hv \<and> 0 < hv"
      and z: "numeric_value parse (cbz ! i) = Some z"
    from h have s: "hs ! i = Some hv" by (simp add: hi [OF i] of_float_Num)
    have v: "dc ! i = Num (degrees (arctan2 z hv))"
      by (simp add: di [OF i] s z np_angle_Some)
    from h have p: "0 < hv" by simp
    note r = dip_range [OF p, of z]
    show "\<exists>d. dc ! i = Num d \<and> - 90 \<le> d \<and> d \<le> 90 \<and> tan (radians d) = z / hv"
      apply (rule exI [of _ "degrees (arctan2 z hv)"])
      apply (intro conjI)
         apply (rule v)
        apply (rule less_imp_le [OF conjunct1 [OF r]])
       apply (rule less_imp_le [OF conjunct1 [OF conjunct2 [OF r]]])
      apply (rule conjunct2 [OF conjunct2 [OF r]])
      done
  next
    fix i hv
    assume i: "i < nrows df" and m: "numeric_value parse (cbz ! i) = None"
    have "np_degrees (np_arctan2 (numeric_value parse (cbz ! i)) (hs ! i)) = None"
      by (rule np_angle_None) (simp add: m)
    then show "dc ! i = NaN" by (simp add: di [OF i])
  qed
  have hyp: "\<forall>i<nrows df. \<forall>x y. numeric_value parse (cbx ! i) = Some x
                                 \<and> numeric_value parse (cby ! i) = Some y
                                 \<and> squares_fit (to_numeric parse cbx) (to_numeric parse cby) x y
                                 \<longrightarrow>
               hc ! i = Num (hypot x y)"
  proof (intro allI impI)
    fix i x y
    assume i: "i < nrows df"
      and xy: "numeric_value parse (cbx ! i) = Some x \<and> numeric_value parse (cby ! i) = Some y
                 \<and> squares_fit (to_numeric parse cbx) (to_numeric parse cby) x y"
    from xy have "hs ! i = Some (hypot x y)" by (intro exact [OF i]) simp_all
    then show "hc ! i = Num (hypot x y)" by (simp add: hi [OF i])
  qed
  show ?thesis
    apply (intro exI conjI)
        apply (rule d)
       apply (rule gh)
      apply (rule gd)
     apply (rule dip)
    apply (rule hyp)
    done
qed

theorem dip_range_positive_h_witness:
  "has_columns two_samples raw_columns \<and> aligned two_samples
   \<and> (\<exists>df1 hc dc.
         derive_angles unsigned_literal two_samples = Inr df1
       \<and> getitem df1 ''H_uT'' = Inr hc
       \<and> getitem df1 ''Dip_Angle_deg'' = Inr dc
       \<and> hc ! 1 = Num 20
       \<and> (\<exists>d. dc ! 1 = Num d \<and> - 90 \<le> d \<and> d \<le> 90 \<and> tan (radians d) = 40 / 20))"
proof -
  have n: "nrows two_samples = 2" by (simp add: two_samples_def)
  have hy: "hypot 20 0 = 20" by (simp add: hypot_def)
  from dip_range_positive_h [OF two_samples_input, of unsigned_literal]
  obtain df1 hc dc where
    d: "derive_angles unsigned_literal two_samples = Inr df1" and
    gh: "getitem df1 ''H_uT'' = Inr hc" and
    gd: "getitem df1 ''Dip_Angle_deg'' = Inr dc" and
    dip: "\<forall>i<nrows two_samples. \<forall>hv. hc ! i = Num hv \<and> 0 < hv \<longrightarrow>
               (\<forall>z. numeric_value unsigned_literal ([Num 40, Num 40] ! i) = Some z \<longrightarrow>
                  (\<exists>d. dc ! i = Num d \<and> - 90 \<le> d \<and> d \<le> 90 \<and> tan (radians d) = z / hv))
             \<and> (numeric_value unsigned_literal ([Num 40, Num 40] ! i) = None \<longrightarrow> dc ! i = NaN)" and
    hyp: "\<forall>i<nrows two_samples. \<forall>x y. numeric_value unsigned_literal ([Num 0, Num 20] ! i) = Some x
                                 \<and> numeric_value unsigned_literal ([Num 0, Num 0] ! i) = Some y
                                 \<and> squares_fit (to_numeric unsigned_literal [Num 0, Num 20])
                                      (to_numeric unsigned_literal [Num 0, Num 0]) x y \<longrightarrow>
               hc ! i = Num (hypot x y)"
    by (elim exE conjE)
  have sf: "squares_fit (to_numeric unsigned_literal [Num 0, Num 20])
              (to_numeric unsigned_literal [Num 0, Num 0]) 20 0"
    by (simp add: to_numeric_floats_id squares_fit_floats)
  have h1: "hc ! 1 = Num 20"
    using hyp [rule_format, of 1 20 0] n hy sf by simp
  have o: "\<exists>d. dc ! 1 = Num d \<and> - 90 \<le> d \<and> d \<le> 90 \<and> tan (radians d) = 40 / 20"
    using dip [rule_format, of 1 20] h1 n by simp
  show ?thesis
    apply (intro conjI)
      apply (rule two_samples_input(1))
     apply (rule two_samples_input(2))
    apply (rule exI [of _ df1])
    apply (rule exI [of _ hc])
    apply (rule exI [of _ dc])
    apply (intro conjI)
        apply (rule d)
       apply (rule gh)
      apply (rule gd)
     apply (rule h1)
    apply (rule o)
    done
qed

text \<open>
  C7 (as stated it fails: on a series of more than 10 samples with a missing value among
  the first or the last \<open>window_length\<close> values of the dip, the filter raises and the
  smoothing appends nothing).  For an aligned frame with the five raw columns and none of
  the six new names, and a filter core that keeps the length: the derivation returns and
  appends exactly \<open>H_uT\<close>, \<open>Dip_Angle_deg\<close>, \<open>Declination_deg\<close>; it leaves every column
  that is not raw as it was and replaces a raw column by its numeric coercion, which
  changes nothing in a column of integers or of floats and NaN; every column of its
  result is as long as the index.  The smoothing then raises \<open>ValueError\<close> when the series
  has more than 10 samples and a dip value in one of the two edge windows is missing.  In
  every other case it returns, appends exactly \<open>Dip_Angle_smooth\<close>,
  \<open>Declination_smooth\<close>, \<open>Bz_smooth\<close>, leaves every column it finds, the filter's inputs
  among them, as it was, and every column of the result is as long as the index.
\<close>

theorem stages_append_columns:
  assumes h: "has_columns df raw_columns" and al: "aligned df"
    and gx: "getitem df ''Bx_uT'' = Inr cbx"
    and gy: "getitem df ''By_uT'' = Inr cby"
    and gz: "getitem df ''Bz_uT'' = Inr cbz"
    and fresh: "list_all (\<lambda>k. k \<notin> set (colnames df)) (derived_columns @ smoothed_columns)"
    and sg: "nrows df \<le> 10 \<or> length_preserving fit"
  shows "\<exists>df1 dip.
           derive_angles parse df = Inr df1
         \<and> colnames df1 = colnames df @ derived_columns
         \<and> (\<forall>k c. getitem df k = Inr c \<longrightarrow>
               getitem df1 k = Inr (if k \<in> set raw_columns then to_numeric parse c else c))
         \<and> (\<forall>c. numeric_column c \<longrightarrow> to_numeric parse c = c)
         \<and> nrows df1 = nrows df \<and> aligned df1
         \<and> getitem df1 ''Dip_Angle_deg'' = Inr dip
         \<and> calculate_magnetic_parameters parse fit df = smooth fit df1
         \<and> (10 < nrows df \<and> edge_nan (map cell_value dip) (window_length (nrows df)) \<longrightarrow>
               smooth fit df1 = Inl ValueError)
         \<and> (nrows df \<le> 10 \<or> \<not> edge_nan (map cell_value dip) (window_length (nrows df)) \<longrightarrow>
               (\<exists>df2. smooth fit df1 = Inr df2
                    \<and> colnames df2 = colnames df1 @ smoothed_columns
                    \<and> (\<forall>k c. getitem df1 k = Inr c \<longrightarrow> getitem df2 k = Inr c)
                    \<and> nrows df2 = nrows df \<and> aligned df2))"
proof (rule calculate_cells [OF h al gx gy gz, of parse fit])
  fix df0 df1 hs ds es
  let ?n = "nrows df"
  let ?w = "window_length (nrows df)"
  let ?Z = "map (numeric_value parse) cbz"
  assume n0: "nrows df0 = nrows df" and cn0: "colnames df0 = colnames df"
    and a0: "aligned df0"
    and g: "\<And>k. getitem df0 k =
            (if k \<in> set raw_columns
             then (case getitem df k of Inl e \<Rightarrow> Inl e | Inr c \<Rightarrow> Inr (to_numeric parse c))
             else getitem df k)"
    and df1: "df1 = setitem (setitem (setitem df0 ''H_uT'' (map of_float hs))
                      ''Dip_Angle_deg'' (map of_float ds))
                      ''Declination_deg'' (map of_float es)"
    and d1: "derive_angles parse df = Inr df1"
    and lh: "length hs = nrows df" and ld: "length ds = nrows df" and le: "length es = nrows df"
    and cm: "calculate_magnetic_parameters parse fit df = smooth fit df1"
    and s_short: "nrows df \<le> 10 \<Longrightarrow> smooth fit df1 =
           Inr (setitem (setitem (setitem df1 ''Dip_Angle_smooth'' (map of_float ds))
                  ''Declination_smooth'' (map of_float es))
                  ''Bz_smooth'' (to_numeric parse cbz))"
    and s_fail: "10 < nrows df \<Longrightarrow> edge_nan ds (window_length (nrows df)) \<Longrightarrow>
       smooth fit df1 = Inl ValueError"
    and s_long: "10 < nrows df \<Longrightarrow> \<not> edge_nan ds (window_length (nrows df)) \<Longrightarrow>
       smooth fit df1 =
           Inr (setitem (setitem (setitem df1
                  ''Dip_Angle_smooth'' (map of_float (fit ds (window_length (nrows df)) 2)))
                  ''Declination_smooth'' (map of_float (fit es (window_length (nrows df)) 2)))
                  ''Bz_smooth'' (map of_float
                     (fit (map (numeric_value parse) cbz) (window_length (nrows df)) 2)))"
  have lz: "length cbz = ?n" by (rule aligned_getitem [OF al gz])
  have fr: "''H_uT'' \<notin> set (colnames df)" "''Dip_Angle_deg'' \<notin> set (colnames df)"
    "''Declination_deg'' \<notin> set (colnames df)" "''Dip_Angle_smooth'' \<notin> set (colnames df)"
    "''Declination_smooth'' \<notin> set (colnames df)" "''Bz_smooth'' \<notin> set (colnames df)"
    using fresh by (simp_all add: derived_columns_def smoothed_columns_def)
  have cn1: "colnames df1 = colnames df @ derived_columns"
    by (simp add: df1 colnames_setitem cn0 fr derived_columns_def)
  have keep1: "\<forall>k c. getitem df k = Inr c \<longrightarrow>
               getitem df1 k = Inr (if k \<in> set raw_columns then to_numeric parse c else c)"
  proof (intro allI impI)
    fix k c assume kc: "getitem df k = Inr c"
    then have "k \<in> set (colnames df)" by (rule getitem_colnames)
    with fr have "k \<noteq> ''H_uT''" "k \<noteq> ''Dip_Angle_deg''" "k \<noteq> ''Declination_deg''"
      by auto
    then have "getitem df1 k = getitem df0 k" by (simp add: df1)
    also have "\<dots> = Inr (if k \<in> set raw_columns then to_numeric parse c else c)"
      using kc by (simp add: g)
    finally show "getitem df1 k = Inr (if k \<in> set raw_columns then to_numeric parse c else c)" .
  qed
  have num: "\<forall>c. numeric_column c \<longrightarrow> to_numeric parse c = c"
    by (intro allI impI) (rule to_numeric_numeric)
  have n1: "nrows df1 = nrows df" by (simp add: df1 n0)
  have lH: "length (map of_float hs) = nrows df0" by (simp add: lh n0)
  have lD: "length (map of_float ds) = nrows df0" by (simp add: ld n0)
  have lE: "length (map of_float es) = nrows df0" by (simp add: le n0)
  have a1: "aligned df1"
    unfolding df1
    by (intro aligned_setitem a0) (simp_all only: nrows_setitem lH lD lE)
  have gd: "getitem df1 ''Dip_Angle_deg'' = Inr (map of_float ds)" by (simp add: df1)
  have dv: "map cell_value (map of_float ds) = ds" by (rule map_cell_value_of_float)
  have fails: "10 < nrows df \<and> edge_nan (map cell_value (map of_float ds)) ?w \<longrightarrow>
               smooth fit df1 = Inl ValueError"
    by (simp only: dv) (intro impI, elim conjE, rule s_fail)
  have appended: "\<And>sd se sz. length sd = ?n \<Longrightarrow> length se = ?n \<Longrightarrow> length sz = ?n \<Longrightarrow>
       smooth fit df1 = Inr (setitem (setitem (setitem df1 ''Dip_Angle_smooth'' sd)
                  ''Declination_smooth'' se) ''Bz_smooth'' sz) \<Longrightarrow>
       \<exists>df2. smooth fit df1 = Inr df2
            \<and> colnames df2 = colnames df1 @ smoothed_columns
            \<and> (\<forall>k c. getitem df1 k = Inr c \<longrightarrow> getitem df2 k = Inr c)
            \<and> nrows df2 = nrows df \<and> aligned df2"
  proof -
    fix sd se sz :: series
    assume l: "length sd = ?n" "length se = ?n" "length sz = ?n"
    define df2 where "df2 = setitem (setitem (setitem df1 ''Dip_Angle_smooth'' sd)
                  ''Declination_smooth'' se) ''Bz_smooth'' sz"
    assume "smooth fit df1 = Inr (setitem (setitem (setitem df1 ''Dip_Angle_smooth'' sd)
                  ''Declination_smooth'' se) ''Bz_smooth'' sz)"
    then have s2: "smooth fit df1 = Inr df2" by (simp only: df2_def)
    have cn2: "colnames df2 = colnames df1 @ smoothed_columns"
      by (simp add: df2_def colnames_setitem cn1 fr derived_columns_def smoothed_columns_def)
    have keep2: "\<forall>k c. getitem df1 k = Inr c \<longrightarrow> getitem df2 k = Inr c"
    proof (intro allI impI)
      fix k c assume kc: "getitem df1 k = Inr c"
      then have "k \<in> set (colnames df1)" by (rule getitem_colnames)
      then have "k \<in> set (colnames df) \<or> k \<in> set derived_columns" by (simp add: cn1)
      with fr have "k \<noteq> ''Dip_Angle_smooth''" "k \<noteq> ''Declination_smooth''" "k \<noteq> ''Bz_smooth''"
        by (auto simp: derived_columns_def)
      then have "getitem df2 k = getitem df1 k" by (simp add: df2_def)
      with kc show "getitem df2 k = Inr c" by simp
    qed
    have n2: "nrows df2 = nrows df" by (simp add: df2_def n1)
    have l1: "length sd = nrows df1" "length se = nrows df1" "length sz = nrows df1"
      by (simp_all only: l n1)
    have a2: "aligned df2"
      unfolding df2_def
      by (intro aligned_setitem a1) (simp_all only: nrows_setitem l1)
    show "\<exists>df2. smooth fit df1 = Inr df2
            \<and> colnames df2 = colnames df1 @ smoothed_columns
            \<and> (\<forall>k c. getitem df1 k = Inr c \<longrightarrow> getitem df2 k = Inr c)
            \<and> nrows df2 = nrows df \<and> aligned df2"
      apply (rule exI [of _ df2])
      apply (intro conjI)
          apply (rule s2)
         apply (rule cn2)
        apply (rule keep2)
       apply (rule n2)
      apply (rule a2)
      done
  qed
  have returns: "nrows df \<le> 10 \<or> \<not> edge_nan (map cell_value (map of_float ds)) ?w \<longrightarrow>
               (\<exists>df2. smooth fit df1 = Inr df2
                    \<and> colnames df2 = colnames df1 @ smoothed_columns
                    \<and> (\<forall>k c. getitem df1 k = Inr c \<longrightarrow> getitem df2 k = Inr c)
                    \<and> nrows df2 = nrows df \<and> aligned df2)"
  proof (intro impI)
    assume c: "nrows df \<le> 10 \<or> \<not> edge_nan (map cell_value (map of_float ds)) ?w"
    show "\<exists>df2. smooth fit df1 = Inr df2
                    \<and> colnames df2 = colnames df1 @ smoothed_columns
                    \<and> (\<forall>k c. getitem df1 k = Inr c \<longrightarrow> getitem df2 k = Inr c)
                    \<and> nrows df2 = nrows df \<and> aligned df2"
    proof (cases "nrows df \<le> 10")
      case True
      show ?thesis
        by (rule appended [OF _ _ _ s_short [OF True]]) (simp_all add: ld le lz)
    next
      case False
      then have big: "10 < nrows df" by simp
      from c False have ok: "\<not> edge_nan ds ?w" by (simp only: dv) simp
      from sg False have lp: "length_preserving fit" by simp
      have w: "?w \<le> ?n" by (rule window_length_le [OF big])
      have lf: "\<And>xs. length xs = ?n \<Longrightarrow> length (fit xs ?w 2) = ?n"
        using lp w by (simp add: length_preserving_def)
      show ?thesis
        by (rule appended [OF _ _ _ s_long [OF big ok]]) (simp_all add: lf ld le lz)
    qed
  qed
  show ?thesis
    apply (rule exI [of _ df1])
    apply (rule exI [of _ "map of_float ds"])
    apply (intro conjI)
             apply (rule d1)
            apply (rule cn1)
           apply (rule keep1)
          apply (rule num)
         apply (rule n1)
        apply (rule a1)
       apply (rule gd)
      apply (rule cm)
     apply (rule fails)
    apply (rule returns)
    done
qed

theorem stages_append_columns_witness:
  "has_columns (eleven_rows (Num 20) (Num 40)) raw_columns
   \<and> aligned (eleven_rows (Num 20) (Num 40))
   \<and> length_preserving (savgol_core flat_coeffs through_samples)
   \<and> (\<exists>df1 df2.
         derive_angles unsigned_literal (eleven_rows (Num 20) (Num 40)) = Inr df1
       \<and> calculate_magnetic_parameters unsigned_literal
            (savgol_core flat_coeffs through_samples) (eleven_rows (Num 20) (Num 40)) = Inr df2
       \<and> colnames df1 = raw_columns @ derived_columns
       \<and> colnames df2 = raw_columns @ derived_columns @ smoothed_columns
       \<and> getitem df2 ''Bx_uT'' = getitem (eleven_rows (Num 20) (Num 40)) ''Bx_uT''
       \<and> nrows df2 = 11 \<and> aligned df2)"
proof -
  let ?df = "eleven_rows (Num 20) (Num 40)"
  let ?fit = "savgol_core flat_coeffs through_samples"
  let ?bx = "[Num 20, Num 20, Num 20, Num 20, Num 20, Num 20, Num 20, Num 20, Num 20, Num 20,
              Num 20]"
  have n: "nrows ?df = 11" by (simp add: eleven_rows_def)
  have cn: "colnames ?df = raw_columns"
    by (simp add: eleven_rows_def colnames_def raw_columns_def)
  have fresh: "list_all (\<lambda>k. k \<notin> set (colnames ?df)) (derived_columns @ smoothed_columns)"
    by (simp add: cn raw_columns_def derived_columns_def smoothed_columns_def)
  have sg: "nrows ?df \<le> 10 \<or> length_preserving ?fit"
    by (simp add: savgol_core_contract)
  from stages_append_columns [OF eleven_rows_input fresh sg, of unsigned_literal]
  obtain df1 dip where
    d1: "derive_angles unsigned_literal ?df = Inr df1" and
    cn1: "colnames df1 = colnames ?df @ derived_columns" and
    keep1: "\<forall>k c. getitem ?df k = Inr c \<longrightarrow>
               getitem df1 k = Inr (if k \<in> set raw_columns
                                    then to_numeric unsigned_literal c else c)" and
    num: "\<forall>c. numeric_column c \<longrightarrow> to_numeric unsigned_literal c = c" and
    gd: "getitem df1 ''Dip_Angle_deg'' = Inr dip" and
    cm: "calculate_magnetic_parameters unsigned_literal ?fit ?df = smooth ?fit df1" and
    returns: "nrows ?df \<le> 10 \<or> \<not> edge_nan (map cell_value dip) (window_length (nrows ?df)) \<longrightarrow>
               (\<exists>df2. smooth ?fit df1 = Inr df2
                    \<and> colnames df2 = colnames df1 @ smoothed_columns
                    \<and> (\<forall>k c. getitem df1 k = Inr c \<longrightarrow> getitem df2 k = Inr c)
                    \<and> nrows df2 = nrows ?df \<and> aligned df2)"
    by (elim exE conjE)
  have ok: "\<not> edge_nan (map cell_value dip) (window_length (nrows ?df))"
  proof (rule eleven_rows_dip [of unsigned_literal "Num 20" "Num 40"])
    fix df1' ds
    assume d: "derive_angles unsigned_literal ?df = Inr df1'"
      and g: "getitem df1' ''Dip_Angle_deg'' = Inr (map of_float ds)"
      and l: "length ds = 11"
      and v: "\<And>i. i < 11 \<Longrightarrow>
       (ds ! i = None \<longleftrightarrow> (i = 5 \<and> numeric_value unsigned_literal (Num 20) = None)
                          \<or> (i = 7 \<and> numeric_value unsigned_literal (Num 40) = None))"
    from d d1 have "df1' = df1" by simp
    with g gd have dip: "dip = map of_float ds" by simp
    have "\<And>i. i < 11 \<Longrightarrow> ds ! i \<noteq> None" by (simp add: v)
    then have "\<not> (\<exists>i<11. i \<noteq> 5 \<and> ds ! i = None)" by blast
    then have "\<not> edge_nan ds (window_length 11)"
      unfolding eleven_edges [OF l] .
    then show ?thesis unfolding dip n map_cell_value_of_float .
  qed
  from returns ok obtain df2 where
    s2: "smooth ?fit df1 = Inr df2" and
    cn2: "colnames df2 = colnames df1 @ smoothed_columns" and
    keep2: "\<forall>k c. getitem df1 k = Inr c \<longrightarrow> getitem df2 k = Inr c" and
    n2: "nrows df2 = nrows ?df" and
    a2: "aligned df2"
    by blast
  have c2: "calculate_magnetic_parameters unsigned_literal ?fit ?df = Inr df2"
    by (simp only: cm s2)
  have 1: "colnames df1 = raw_columns @ derived_columns" by (simp only: cn1 cn)
  have 2: "colnames df2 = raw_columns @ derived_columns @ smoothed_columns"
    by (simp only: cn2 1 append_assoc)
  have 3: "nrows df2 = 11" by (simp only: n2 n)
  have nb: "to_numeric unsigned_literal ?bx = ?bx"
    by (simp add: to_numeric_floats_id)
  have "getitem df1 ''Bx_uT'' = Inr ?bx"
    using keep1 [rule_format, OF eleven_rows_input(3)] by (simp only: raw_columns_mem if_True nb)
  then have "getitem df2 ''Bx_uT'' = Inr ?bx" by (rule keep2 [rule_format])
  then have 4: "getitem df2 ''Bx_uT'' = getitem ?df ''Bx_uT''"
    by (simp only: eleven_rows_input(3))
  show ?thesis
    apply (intro conjI)
       apply (rule eleven_rows_input(1))
      apply (rule eleven_rows_input(2))
     apply (rule savgol_core_contract)
    apply (rule exI [of _ df1])
    apply (rule exI [of _ df2])
    apply (intro conjI)
          apply (rule d1 c2 1 2 3 4 a2)+
    done
qed

theorem smoothing_raises_counterexample:
  "has_columns (eleven_rows (Num 20) NaN) raw_columns
   \<and> aligned (eleven_rows (Num 20) NaN)
   \<and> list_all (\<lambda>k. case getitem (eleven_rows (Num 20) NaN) k of
                      Inr c \<Rightarrow> list_all is_float c | Inl e \<Rightarrow> False) raw_columns
   \<and> nrows (eleven_rows (Num 20) NaN) = 11
   \<and> calculate_magnetic_parameters unsigned_literal
        (savgol_core flat_coeffs through_samples) (eleven_rows (Num 20) NaN) = Inl ValueError"
proof -
  let ?df = "eleven_rows (Num 20) NaN"
  let ?fit = "savgol_core flat_coeffs through_samples"
  have n: "nrows ?df = 11" by (simp add: eleven_rows_def)
  have fl: "list_all (\<lambda>k. case getitem ?df k of
                      Inr c \<Rightarrow> list_all is_float c | Inl e \<Rightarrow> False) raw_columns"
    by (simp add: eleven_rows_def raw_columns_def getitem_def)
  have c: "calculate_magnetic_parameters unsigned_literal ?fit ?df = Inl ValueError"
  proof (rule calculate_cells [OF eleven_rows_input, of "Num 20" NaN unsigned_literal ?fit])
    fix df0 df1 hs ds es
    let ?bz = "[Num 40, Num 40, Num 40, Num 40, Num 40, Num 40, Num 40, NaN, Num 40, Num 40,
                Num 40]"
    assume ld: "length ds = nrows ?df"
      and dipv: "\<And>i. i < nrows ?df \<Longrightarrow>
        ds ! i = np_degrees (np_arctan2 (numeric_value unsigned_literal (?bz ! i)) (hs ! i))"
      and cm: "calculate_magnetic_parameters unsigned_literal ?fit ?df = smooth ?fit df1"
      and s_fail: "10 < nrows ?df \<Longrightarrow> edge_nan ds (window_length (nrows ?df)) \<Longrightarrow>
         smooth ?fit df1 = Inl ValueError"
    have l: "length ds = 11" by (simp only: ld n)
    have "ds ! 7 = None" using dipv [of 7] by (simp add: n np_angle_None)
    then have "\<exists>i<11. i \<noteq> 5 \<and> ds ! i = None" by (intro exI [of _ 7]) simp
    then have "edge_nan ds (window_length 11)" by (simp only: eleven_edges [OF l])
    then have "smooth ?fit df1 = Inl ValueError" by (intro s_fail) (simp_all add: n)
    then show ?thesis by (simp only: cm)
  qed
  show ?thesis
    apply (intro conjI)
        apply (rule eleven_rows_input(1))
       apply (rule eleven_rows_input(2))
      apply (rule fl)
     apply (rule n)
    apply (rule c)
    done
qed

text \<open>
  C8 (as stated it fails: beyond 10 samples one bad sample near an end of the series makes
  the filter raise).  For an aligned frame with the five raw columns, whatever its cells
  hold: the derivation returns a frame; each raw column is replaced by its coercion, in
  which a number keeps its value and a cell that is not a number (NaN, or a string that
  does not parse) is NaN.  For every sample: \<open>H_uT\<close> is missing where \<open>bx\<close> or \<open>by\<close> is
  missing, and is \<open>hypot(bx, by)\<close> where both are numbers whose squares fit; the
  declination is missing exactly where \<open>bx\<close> or \<open>by\<close> is; the dip is missing exactly where
  \<open>bz\<close> or \<open>H_uT\<close> is.  With at most 10 samples the computation returns and the smoothed
  columns are the dip, the declination and \<open>bz\<close> themselves.  With more than 10 samples
  it raises \<open>ValueError\<close> when a dip value among the first or the last \<open>window_length\<close>
  samples is missing; otherwise it returns, and a smoothed value is missing exactly when
  the sample is at least \<open>window_length div 2\<close> samples away from both ends and a value of
  its source is missing under the window centred on it, in particular where its own
  source value is missing.
\<close>

theorem missing_values_propagate:
  assumes h: "has_columns df raw_columns" and al: "aligned df"
    and gx: "getitem df ''Bx_uT'' = Inr cbx"
    and gy: "getitem df ''By_uT'' = Inr cby"
    and gz: "getitem df ''Bz_uT'' = Inr cbz"
  shows "\<exists>df1 rx ry rz hc dc ec.
           derive_angles parse df = Inr df1
         \<and> (\<forall>k c. k \<in> set raw_columns \<and> getitem df k = Inr c \<longrightarrow>
               getitem df1 k = Inr (to_numeric parse c))
         \<and> (\<forall>c i. i < length c \<longrightarrow>
               cell_value (to_numeric parse c ! i) = numeric_value parse (c ! i)
             \<and> (to_numeric parse c ! i = NaN \<longleftrightarrow> numeric_value parse (c ! i) = None))
         \<and> (\<forall>s. numeric_value parse (Text s) = None \<longleftrightarrow> parse s = None)
         \<and> rx = to_numeric parse cbx \<and> ry = to_numeric parse cby \<and> rz = to_numeric parse cbz
         \<and> getitem df1 ''H_uT'' = Inr hc
         \<and> getitem df1 ''Dip_Angle_deg'' = Inr dc
         \<and> getitem df1 ''Declination_deg'' = Inr ec
         \<and> (\<forall>i<nrows df.
               (rx ! i = NaN \<or> ry ! i = NaN \<longrightarrow> hc ! i = NaN)
             \<and> (\<forall>x y. cell_value (rx ! i) = Some x \<and> cell_value (ry ! i) = Some y
                       \<and> squares_fit rx ry x y \<longrightarrow> hc ! i = Num (hypot x y))
             \<and> (ec ! i = NaN \<longleftrightarrow> rx ! i = NaN \<or> ry ! i = NaN)
             \<and> (dc ! i = NaN \<longleftrightarrow> rz ! i = NaN \<or> hc ! i = NaN))
         \<and> (nrows df \<le> 10 \<longrightarrow>
               (\<exists>df2. calculate_magnetic_parameters parse (savgol_core coeffs polyval) df = Inr df2
                    \<and> getitem df2 ''Dip_Angle_smooth'' = Inr dc
                    \<and> getitem df2 ''Declination_smooth'' = Inr ec
                    \<and> getitem df2 ''Bz_smooth'' = Inr rz))
         \<and> (10 < nrows df \<and> edge_nan (map cell_value dc) (window_length (nrows df)) \<longrightarrow>
               calculate_magnetic_parameters parse (savgol_core coeffs polyval) df
                 = Inl ValueError)
         \<and> (10 < nrows df \<and> \<not> edge_nan (map cell_value dc) (window_length (nrows df)) \<longrightarrow>
               (\<exists>df2 sd se sz.
                    calculate_magnetic_parameters parse (savgol_core coeffs polyval) df = Inr df2
                  \<and> getitem df2 ''Dip_Angle_smooth'' = Inr sd
                  \<and> getitem df2 ''Declination_smooth'' = Inr se
                  \<and> getitem df2 ''Bz_smooth'' = Inr sz
                  \<and> length sd = nrows df \<and> length se = nrows df \<and> length sz = nrows df
                  \<and> (\<forall>i<nrows df.
                        (sd ! i = NaN \<longleftrightarrow>
                           window_length (nrows df) div 2 \<le> i
                         \<and> i < nrows df - window_length (nrows df) div 2
                         \<and> missing_near dc (window_length (nrows df)) i)
                      \<and> (se ! i = NaN \<longleftrightarrow>
                           window_length (nrows df) div 2 \<le> i
                         \<and> i < nrows df - window_length (nrows df) div 2
                         \<and> missing_near ec (window_length (nrows df)) i)
                      \<and> (sz ! i = NaN \<longleftrightarrow>
                           window_length (nrows df) div 2 \<le> i
                         \<and> i < nrows df - window_length (nrows df) div 2
                         \<and> missing_near rz (window_length (nrows df)) i)
                      \<and> (dc ! i = NaN \<longrightarrow> sd ! i = NaN)
                      \<and> (ec ! i = NaN \<longrightarrow> se ! i = NaN)
                      \<and> (rz ! i = NaN \<longrightarrow> sz ! i = NaN))))"
proof (rule calculate_cells [OF h al gx gy gz, of parse "savgol_core coeffs polyval"])
  fix df0 df1 hs ds es
  let ?n = "nrows df"
  let ?w = "window_length (nrows df)"
  let ?fit = "savgol_core coeffs polyval"
  let ?rx = "to_numeric parse cbx" and ?ry = "to_numeric parse cby"
    and ?rz = "to_numeric parse cbz"
  let ?zs = "map (numeric_value parse) cbz"
  let ?calc = "calculate_magnetic_parameters parse ?fit df"
  assume g: "\<And>k. getitem df0 k =
            (if k \<in> set raw_columns
             then (case getitem df k of Inl e \<Rightarrow> Inl e | Inr c \<Rightarrow> Inr (to_numeric parse c))
             else getitem df k)"
    and df1: "df1 = setitem (setitem (setitem df0 ''H_uT'' (map of_float hs))
                      ''Dip_Angle_deg'' (map of_float ds))
                      ''Declination_deg'' (map of_float es)"
    and d1: "derive_angles parse df = Inr df1"
    and lh: "length hs = nrows df" and ld: "length ds = nrows df" and le: "length es = nrows df"
    and missing: "\<And>i. i < nrows df \<Longrightarrow>
        numeric_value parse (cbx ! i) = None \<or> numeric_value parse (cby ! i) = None \<Longrightarrow>
        hs ! i = None"
    and exact: "\<And>i x y. i < nrows df \<Longrightarrow>
        numeric_value parse (cbx ! i) = Some x \<Longrightarrow> numeric_value parse (cby ! i) = Some y \<Longrightarrow>
        squares_fit (to_numeric parse cbx) (to_numeric parse cby) x y \<Longrightarrow>
        hs ! i = Some (hypot x y)"
    and dipv: "\<And>i. i < nrows df \<Longrightarrow>
        ds ! i = np_degrees (np_arctan2 (numeric_value parse (cbz ! i)) (hs ! i))"
    and decv: "\<And>i. i < nrows df \<Longrightarrow>
        es ! i = np_degrees (np_arctan2 (numeric_value parse (cby ! i))
                                        (numeric_value parse (cbx ! i)))"
    and cm: "?calc = smooth ?fit df1"
    and s_short: "nrows df \<le> 10 \<Longrightarrow> smooth ?fit df1 =
           Inr (setitem (setitem (setitem df1 ''Dip_Angle_smooth'' (map of_float ds))
                  ''Declination_smooth'' (map of_float es))
                  ''Bz_smooth'' (to_numeric parse cbz))"
    and s_fail: "10 < nrows df \<Longrightarrow> edge_nan ds (window_length (nrows df)) \<Longrightarrow>
       smooth ?fit df1 = Inl ValueError"
    and s_long: "10 < nrows df \<Longrightarrow> \<not> edge_nan ds (window_length (nrows df)) \<Longrightarrow>
       smooth ?fit df1 =
           Inr (setitem (setitem (setitem df1
                  ''Dip_Angle_smooth'' (map of_float (?fit ds (window_length (nrows df)) 2)))
                  ''Declination_smooth'' (map of_float (?fit es (window_length (nrows df)) 2)))
                  ''Bz_smooth'' (map of_float
                     (?fit (map (numeric_value parse) cbz) (window_length (nrows df)) 2)))"
  have lx: "length cbx = ?n" by (rule aligned_getitem [OF al gx])
  have ly: "length cby = ?n" by (rule aligned_getitem [OF al gy])
  have lz: "length cbz = ?n" by (rule aligned_getitem [OF al gz])
  have dv: "map cell_value (map of_float ds) = ds" by (rule map_cell_value_of_float)
  have raw: "\<forall>k c. k \<in> set raw_columns \<and> getitem df k = Inr c \<longrightarrow>
               getitem df1 k = Inr (to_numeric parse c)"
  proof (intro allI impI)
    fix k c assume kc: "k \<in> set raw_columns \<and> getitem df k = Inr c"
    then have "k \<noteq> ''H_uT''" "k \<noteq> ''Dip_Angle_deg''" "k \<noteq> ''Declination_deg''"
      using raw_not_derived [of k] by simp_all
    then have "getitem df1 k = getitem df0 k" by (simp add: df1)
    also have "\<dots> = Inr (to_numeric parse c)" using kc by (simp add: g)
    finally show "getitem df1 k = Inr (to_numeric parse c)" .
  qed
  have coerced: "\<forall>c i. i < length c \<longrightarrow>
               cell_value (to_numeric parse c ! i) = numeric_value parse (c ! i)
             \<and> (to_numeric parse c ! i = NaN \<longleftrightarrow> numeric_value parse (c ! i) = None)"
    by (intro allI impI conjI) (simp_all add: to_numeric_nth_value to_numeric_nth_NaN_iff)
  have text_cell: "\<forall>s. numeric_value parse (Text s) = None \<longleftrightarrow> parse s = None"
    by (simp add: numeric_value_def split: option.splits literal.splits)
  have gh: "getitem df1 ''H_uT'' = Inr (map of_float hs)" by (simp add: df1)
  have gd: "getitem df1 ''Dip_Angle_deg'' = Inr (map of_float ds)" by (simp add: df1)
  have ge: "getitem df1 ''Declination_deg'' = Inr (map of_float es)" by (simp add: df1)
  have eN: "\<And>i. i < ?n \<Longrightarrow> es ! i = None \<longleftrightarrow>
              numeric_value parse (cbx ! i) = None \<or> numeric_value parse (cby ! i) = None"
    by (auto simp: decv np_angle_None_iff)
  have dN: "\<And>i. i < ?n \<Longrightarrow> ds ! i = None \<longleftrightarrow>
              numeric_value parse (cbz ! i) = None \<or> hs ! i = None"
    by (simp add: dipv np_angle_None_iff)
  have samples: "\<forall>i<nrows df.
               (?rx ! i = NaN \<or> ?ry ! i = NaN \<longrightarrow> map of_float hs ! i = NaN)
             \<and> (\<forall>x y. cell_value (?rx ! i) = Some x \<and> cell_value (?ry ! i) = Some y
                       \<and> squares_fit ?rx ?ry x y \<longrightarrow> map of_float hs ! i = Num (hypot x y))
             \<and> (map of_float es ! i = NaN \<longleftrightarrow> ?rx ! i = NaN \<or> ?ry ! i = NaN)
             \<and> (map of_float ds ! i = NaN \<longleftrightarrow> ?rz ! i = NaN \<or> map of_float hs ! i = NaN)"
  proof (intro allI impI)
    fix i assume i: "i < nrows df"
    have ix: "i < length cbx" and iy: "i < length cby" and iz: "i < length cbz"
      using i by (simp_all only: lx ly lz)
    have nx: "?rx ! i = NaN \<longleftrightarrow> numeric_value parse (cbx ! i) = None"
      by (rule to_numeric_nth_NaN_iff [OF ix])
    have ny: "?ry ! i = NaN \<longleftrightarrow> numeric_value parse (cby ! i) = None"
      by (rule to_numeric_nth_NaN_iff [OF iy])
    have nz: "?rz ! i = NaN \<longleftrightarrow> numeric_value parse (cbz ! i) = None"
      by (rule to_numeric_nth_NaN_iff [OF iz])
    have vx: "cell_value (?rx ! i) = numeric_value parse (cbx ! i)"
      by (rule to_numeric_nth_value [OF ix])
    have vy: "cell_value (?ry ! i) = numeric_value parse (cby ! i)"
      by (rule to_numeric_nth_value [OF iy])
    have hi: "map of_float hs ! i = of_float (hs ! i)" using i by (simp add: lh)
    have di: "map of_float ds ! i = of_float (ds ! i)" using i by (simp add: ld)
    have ei: "map of_float es ! i = of_float (es ! i)" using i by (simp add: le)
    have 1: "?rx ! i = NaN \<or> ?ry ! i = NaN \<longrightarrow> map of_float hs ! i = NaN"
      using missing [OF i] by (simp add: nx ny hi)
    have 2: "\<forall>x y. cell_value (?rx ! i) = Some x \<and> cell_value (?ry ! i) = Some y
                       \<and> squares_fit ?rx ?ry x y \<longrightarrow> map of_float hs ! i = Num (hypot x y)"
    proof (intro allI impI)
      fix x y
      assume a: "cell_value (?rx ! i) = Some x \<and> cell_value (?ry ! i) = Some y
                       \<and> squares_fit ?rx ?ry x y"
      then have "hs ! i = Some (hypot x y)"
        by (intro exact [OF i]) (simp_all add: vx [symmetric] vy [symmetric])
      then show "map of_float hs ! i = Num (hypot x y)" by (simp add: hi)
    qed
    have 3: "map of_float es ! i = NaN \<longleftrightarrow> ?rx ! i = NaN \<or> ?ry ! i = NaN"
      by (simp only: ei of_float_NaN eN [OF i] nx ny)
    have 4: "map of_float ds ! i = NaN \<longleftrightarrow> ?rz ! i = NaN \<or> map of_float hs ! i = NaN"
      by (simp only: di hi of_float_NaN dN [OF i] nz)
    from 1 2 3 4 show
      "(?rx ! i = NaN \<or> ?ry ! i = NaN \<longrightarrow> map of_float hs ! i = NaN)
             \<and> (\<forall>x y. cell_value (?rx ! i) = Some x \<and> cell_value (?ry ! i) = Some y
                       \<and> squares_fit ?rx ?ry x y \<longrightarrow> map of_float hs ! i = Num (hypot x y))
             \<and> (map of_float es ! i = NaN \<longleftrightarrow> ?rx ! i = NaN \<or> ?ry ! i = NaN)
             \<and> (map of_float ds ! i = NaN \<longleftrightarrow> ?rz ! i = NaN \<or> map of_float hs ! i = NaN)"
      by (intro conjI)
  qed
  have short: "nrows df \<le> 10 \<longrightarrow>
               (\<exists>df2. ?calc = Inr df2
                    \<and> getitem df2 ''Dip_Angle_smooth'' = Inr (map of_float ds)
                    \<and> getitem df2 ''Declination_smooth'' = Inr (map of_float es)
                    \<and> getitem df2 ''Bz_smooth'' = Inr ?rz)"
  proof
    assume s: "nrows df \<le> 10"
    let ?df2 = "setitem (setitem (setitem df1 ''Dip_Angle_smooth'' (map of_float ds))
                  ''Declination_smooth'' (map of_float es)) ''Bz_smooth'' ?rz"
    have c: "?calc = Inr ?df2" by (simp only: cm s_short [OF s])
    show "\<exists>df2. ?calc = Inr df2
                    \<and> getitem df2 ''Dip_Angle_smooth'' = Inr (map of_float ds)
                    \<and> getitem df2 ''Declination_smooth'' = Inr (map of_float es)
                    \<and> getitem df2 ''Bz_smooth'' = Inr ?rz"
      apply (rule exI [of _ ?df2])
      apply (intro conjI)
         apply (rule c)
        apply simp
       apply simp
      apply simp
      done
  qed
  have fails: "10 < nrows df \<and> edge_nan (map cell_value (map of_float ds)) ?w \<longrightarrow>
               ?calc = Inl ValueError"
    by (simp only: dv cm) (intro impI, elim conjE, rule s_fail)
  have long: "10 < nrows df \<and> \<not> edge_nan (map cell_value (map of_float ds)) ?w \<longrightarrow>
               (\<exists>df2 sd se sz.
                    ?calc = Inr df2
                  \<and> getitem df2 ''Dip_Angle_smooth'' = Inr sd
                  \<and> getitem df2 ''Declination_smooth'' = Inr se
                  \<and> getitem df2 ''Bz_smooth'' = Inr sz
                  \<and> length sd = nrows df \<and> length se = nrows df \<and> length sz = nrows df
                  \<and> (\<forall>i<nrows df.
                        (sd ! i = NaN \<longleftrightarrow>
                           ?w div 2 \<le> i \<and> i < nrows df - ?w div 2
                         \<and> missing_near (map of_float ds) ?w i)
                      \<and> (se ! i = NaN \<longleftrightarrow>
                           ?w div 2 \<le> i \<and> i < nrows df - ?w div 2
                         \<and> missing_near (map of_float es) ?w i)
                      \<and> (sz ! i = NaN \<longleftrightarrow>
                           ?w div 2 \<le> i \<and> i < nrows df - ?w div 2
                         \<and> missing_near ?rz ?w i)
                      \<and> (map of_float ds ! i = NaN \<longrightarrow> sd ! i = NaN)
                      \<and> (map of_float es ! i = NaN \<longrightarrow> se ! i = NaN)
                      \<and> (?rz ! i = NaN \<longrightarrow> sz ! i = NaN)))"
  proof
    assume a: "10 < nrows df \<and> \<not> edge_nan (map cell_value (map of_float ds)) ?w"
    from a have big: "10 < nrows df" by (rule conjunct1)
    from a have ok: "\<not> edge_nan ds ?w" unfolding dv by (rule conjunct2)
    have w: "?w \<le> ?n" by (rule window_length_le [OF big])
    have wpos: "0 < ?w" using window_length_bounds [of ?n] by simp
    have lzs: "length ?zs = ?n" by (simp add: lz)
    have oke: "\<not> edge_nan es ?w"
    proof
      assume "edge_nan es ?w"
      then have "edge_nan ds ?w"
      proof (rule edge_nan_mono [rotated 2])
        show "length es = length ds" by (simp only: le ld)
        fix i assume i: "i < length ds" and e: "es ! i = None"
        from i have i': "i < ?n" by (simp only: ld)
        from e have "hs ! i = None" using missing [OF i'] by (simp add: eN [OF i'])
        then show "ds ! i = None" by (simp add: dN [OF i'])
      qed
      with ok show False by simp
    qed
    have okz: "\<not> edge_nan ?zs ?w"
    proof
      assume "edge_nan ?zs ?w"
      then have "edge_nan ds ?w"
      proof (rule edge_nan_mono [rotated 2])
        show "length ?zs = length ds" by (simp only: lzs ld)
        fix i assume i: "i < length ds" and e: "?zs ! i = None"
        from i have i': "i < ?n" by (simp only: ld)
        from e i' have "numeric_value parse (cbz ! i) = None" by (simp add: lz)
        then show "ds ! i = None" by (simp add: dN [OF i'])
      qed
      with ok show False by simp
    qed
    let ?sd = "map of_float (?fit ds ?w 2)"
    let ?se = "map of_float (?fit es ?w 2)"
    let ?sz = "map of_float (?fit ?zs ?w 2)"
    let ?df2 = "setitem (setitem (setitem df1 ''Dip_Angle_smooth'' ?sd)
                  ''Declination_smooth'' ?se) ''Bz_smooth'' ?sz"
    have c: "?calc = Inr ?df2" by (simp only: cm s_long [OF big ok])
    have wd: "?w \<le> length ds" and we: "?w \<le> length es" and wz: "?w \<le> length ?zs"
      using w by (simp_all only: ld le lzs)
    have l1: "length ?sd = ?n" by (simp add: length_savgol_core [OF wd] ld)
    have l2: "length ?se = ?n" by (simp add: length_savgol_core [OF we] le)
    have l3: "length ?sz = ?n" by (simp add: length_savgol_core [OF wz] lz)
    have mz: "\<And>i. missing_near ?rz ?w i \<longleftrightarrow> None \<in> set (take ?w (drop (i - ?w div 2) ?zs))"
      by (simp only: missing_near_numeric [OF to_numeric_numeric_column]
            map_cell_value_to_numeric)
    have cells: "\<forall>i<nrows df.
                        (?sd ! i = NaN \<longleftrightarrow>
                           ?w div 2 \<le> i \<and> i < nrows df - ?w div 2
                         \<and> missing_near (map of_float ds) ?w i)
                      \<and> (?se ! i = NaN \<longleftrightarrow>
                           ?w div 2 \<le> i \<and> i < nrows df - ?w div 2
                         \<and> missing_near (map of_float es) ?w i)
                      \<and> (?sz ! i = NaN \<longleftrightarrow>
                           ?w div 2 \<le> i \<and> i < nrows df - ?w div 2
                         \<and> missing_near ?rz ?w i)
                      \<and> (map of_float ds ! i = NaN \<longrightarrow> ?sd ! i = NaN)
                      \<and> (map of_float es ! i = NaN \<longrightarrow> ?se ! i = NaN)
                      \<and> (?rz ! i = NaN \<longrightarrow> ?sz ! i = NaN)"
    proof (intro allI impI)
      fix i assume i: "i < nrows df"
      have id: "i < length ds" and ie: "i < length es" and iz: "i < length ?zs"
        and ic: "i < length cbz"
        using i by (simp_all only: ld le lzs lz)
      have 1: "?sd ! i = NaN \<longleftrightarrow> ?w div 2 \<le> i \<and> i < nrows df - ?w div 2
                         \<and> missing_near (map of_float ds) ?w i"
        using smoothed_cell [OF wd ok id missing_near_of_float, of coeffs polyval 2]
        by (simp only: ld)
      have 2: "?se ! i = NaN \<longleftrightarrow> ?w div 2 \<le> i \<and> i < nrows df - ?w div 2
                         \<and> missing_near (map of_float es) ?w i"
        using smoothed_cell [OF we oke ie missing_near_of_float, of coeffs polyval 2]
        by (simp only: le)
      have 3: "?sz ! i = NaN \<longleftrightarrow> ?w div 2 \<le> i \<and> i < nrows df - ?w div 2
                         \<and> missing_near ?rz ?w i"
        using smoothed_cell [OF wz okz iz mz, of coeffs polyval 2]
        by (simp only: lzs)
      have 4: "map of_float ds ! i = NaN \<longrightarrow> ?sd ! i = NaN"
      proof
        assume "map of_float ds ! i = NaN"
        then have "ds ! i = None" using id by (simp add: of_float_NaN)
        then show "?sd ! i = NaN" by (rule smoothed_cell_missing [OF wd wpos ok id])
      qed
      have 5: "map of_float es ! i = NaN \<longrightarrow> ?se ! i = NaN"
      proof
        assume "map of_float es ! i = NaN"
        then have "es ! i = None" using ie by (simp add: of_float_NaN)
        then show "?se ! i = NaN" by (rule smoothed_cell_missing [OF we wpos oke ie])
      qed
      have 6: "?rz ! i = NaN \<longrightarrow> ?sz ! i = NaN"
      proof
        assume "?rz ! i = NaN"
        then have "numeric_value parse (cbz ! i) = None"
          by (simp only: to_numeric_nth_NaN_iff [OF ic])
        then have "?zs ! i = None" using ic by simp
        then show "?sz ! i = NaN" by (rule smoothed_cell_missing [OF wz wpos okz iz])
      qed
      from 1 2 3 4 5 6 show
        "(?sd ! i = NaN \<longleftrightarrow>
                           ?w div 2 \<le> i \<and> i < nrows df - ?w div 2
                         \<and> missing_near (map of_float ds) ?w i)
                      \<and> (?se ! i = NaN \<longleftrightarrow>
                           ?w div 2 \<le> i \<and> i < nrows df - ?w div 2
                         \<and> missing_near (map of_float es) ?w i)
                      \<and> (?sz ! i = NaN \<longleftrightarrow>
                           ?w div 2 \<le> i \<and> i < nrows df - ?w div 2
                         \<and> missing_near ?rz ?w i)
                      \<and> (map of_float ds ! i = NaN \<longrightarrow> ?sd ! i = NaN)
                      \<and> (map of_float es ! i = NaN \<longrightarrow> ?se ! i = NaN)
                      \<and> (?rz ! i = NaN \<longrightarrow> ?sz ! i = NaN)"
        by (intro conjI)
    qed
    have s1: "getitem ?df2 ''Dip_Angle_smooth'' = Inr ?sd" by simp
    have s2: "getitem ?df2 ''Declination_smooth'' = Inr ?se" by simp
    have s3: "getitem ?df2 ''Bz_smooth'' = Inr ?sz" by simp
    show "\<exists>df2 sd se sz.
                    ?calc = Inr df2
                  \<and> getitem df2 ''Dip_Angle_smooth'' = Inr sd
                  \<and> getitem df2 ''Declination_smooth'' = Inr se
                  \<and> getitem df2 ''Bz_smooth'' = Inr sz
                  \<and> length sd = nrows df \<and> length se = nrows df \<and> length sz = nrows df
                  \<and> (\<forall>i<nrows df.
                        (sd ! i = NaN \<longleftrightarrow>
                           ?w div 2 \<le> i \<and> i < nrows df - ?w div 2
                         \<and> missing_near (map of_float ds) ?w i)
                      \<and> (se ! i = NaN \<longleftrightarrow>
                           ?w div 2 \<le> i \<and> i < nrows df - ?w div 2
                         \<and> missing_near (map of_float es) ?w i)
                      \<and> (sz ! i = NaN \<longleftrightarrow>
                           ?w div 2 \<le> i \<and> i < nrows df - ?w div 2
                         \<and> missing_near ?rz ?w i)
                      \<and> (map of_float ds ! i = NaN \<longrightarrow> sd ! i = NaN)
                      \<and> (map of_float es ! i = NaN \<longrightarrow> se ! i = NaN)
                      \<and> (?rz ! i = NaN \<longrightarrow> sz ! i = NaN))"
      apply (rule exI [of _ ?df2])
      apply (rule exI [of _ ?sd])
      apply (rule exI [of _ ?se])
      apply (rule exI [of _ ?sz])
      apply (intro conjI)
             apply (rule c)
            apply (rule s1)
           apply (rule s2)
          apply (rule s3)
         apply (rule l1)
        apply (rule l2)
       apply (rule l3)
      apply (rule cells)
      done
  qed
  show ?thesis
    apply (rule exI [of _ df1])
    apply (rule exI [of _ ?rx])
    apply (rule exI [of _ ?ry])
    apply (rule exI [of _ ?rz])
    apply (rule exI [of _ "map of_float hs"])
    apply (rule exI [of _ "map of_float ds"])
    apply (rule exI [of _ "map of_float es"])
    apply (intro conjI)
                 apply (rule d1)
                apply (rule raw)
               apply (rule coerced)
              apply (rule text_cell)
             apply (rule refl)
            apply (rule refl)
           apply (rule refl)
          apply (rule gh)
         apply (rule gd)
        apply (rule ge)
       apply (rule samples)
      apply (rule short)
     apply (rule fails)
    apply (rule long)
    done
qed

theorem missing_values_propagate_witness:
  "has_columns (eleven_rows (Text ''bad'') (Num 40)) raw_columns
   \<and> aligned (eleven_rows (Text ''bad'') (Num 40))
   \<and> (\<exists>df1 df2 rx hc dc sd.
         derive_angles unsigned_literal (eleven_rows (Text ''bad'') (Num 40)) = Inr df1
       \<and> getitem df1 ''Bx_uT'' = Inr rx
       \<and> getitem df1 ''H_uT'' = Inr hc
       \<and> getitem df1 ''Dip_Angle_deg'' = Inr dc
       \<and> rx ! 5 = NaN \<and> hc ! 5 = NaN \<and> dc ! 5 = NaN
       \<and> hc ! 0 = Num (hypot 20 0)
       \<and> calculate_magnetic_parameters unsigned_literal
            (savgol_core flat_coeffs through_samples) (eleven_rows (Text ''bad'') (Num 40))
            = Inr df2
       \<and> getitem df2 ''Dip_Angle_smooth'' = Inr sd
       \<and> length sd = 11 \<and> sd ! 5 = NaN \<and> sd ! 0 \<noteq> NaN)"
proof -
  let ?df = "eleven_rows (Text ''bad'') (Num 40)"
  let ?fit = "savgol_core flat_coeffs through_samples"
  let ?bx = "[Num 20, Num 20, Num 20, Num 20, Num 20, Text ''bad'', Num 20, Num 20, Num 20,
              Num 20, Num 20]"
  let ?by = "[Num 0, Num 0, Num 0, Num 0, Num 0, Num 0, Num 0, Num 0, Num 0, Num 0, Num 0]"
  let ?calc = "calculate_magnetic_parameters unsigned_literal ?fit ?df"
  have n: "nrows ?df = 11" by (simp add: eleven_rows_def)
  have w: "window_length 11 = 5" by (simp add: window_length_def)
  from missing_values_propagate [where parse = unsigned_literal and coeffs = flat_coeffs
         and polyval = through_samples, OF eleven_rows_input [of "Text ''bad''" "Num 40"]]
  obtain df1 rx ry rz hc dc ec where
    d1: "derive_angles unsigned_literal ?df = Inr df1" and
    raw: "\<forall>k c. k \<in> set raw_columns \<and> getitem ?df k = Inr c \<longrightarrow>
               getitem df1 k = Inr (to_numeric unsigned_literal c)" and
    coerced: "\<forall>c i. i < length c \<longrightarrow>
               cell_value (to_numeric unsigned_literal c ! i)
                 = numeric_value unsigned_literal (c ! i)
             \<and> (to_numeric unsigned_literal c ! i = NaN
                  \<longleftrightarrow> numeric_value unsigned_literal (c ! i) = None)" and
    rx: "rx = to_numeric unsigned_literal ?bx" and
    ry: "ry = to_numeric unsigned_literal ?by" and
    gh: "getitem df1 ''H_uT'' = Inr hc" and
    gd: "getitem df1 ''Dip_Angle_deg'' = Inr dc" and
    samples: "\<forall>i<nrows ?df.
               (rx ! i = NaN \<or> ry ! i = NaN \<longrightarrow> hc ! i = NaN)
             \<and> (\<forall>x y. cell_value (rx ! i) = Some x \<and> cell_value (ry ! i) = Some y
                       \<and> squares_fit rx ry x y \<longrightarrow> hc ! i = Num (hypot x y))
             \<and> (ec ! i = NaN \<longleftrightarrow> rx ! i = NaN \<or> ry ! i = NaN)
             \<and> (dc ! i = NaN \<longleftrightarrow> rz ! i = NaN \<or> hc ! i = NaN)" and
    long: "10 < nrows ?df \<and> \<not> edge_nan (map cell_value dc) (window_length (nrows ?df)) \<longrightarrow>
               (\<exists>df2 sd se sz.
                    ?calc = Inr df2
                  \<and> getitem df2 ''Dip_Angle_smooth'' = Inr sd
                  \<and> getitem df2 ''Declination_smooth'' = Inr se
                  \<and> getitem df2 ''Bz_smooth'' = Inr sz
                  \<and> length sd = nrows ?df \<and> length se = nrows ?df \<and> length sz = nrows ?df
                  \<and> (\<forall>i<nrows ?df.
                        (sd ! i = NaN \<longleftrightarrow>
                           window_length (nrows ?df) div 2 \<le> i
                         \<and> i < nrows ?df - window_length (nrows ?df) div 2
                         \<and> missing_near dc (window_length (nrows ?df)) i)
                      \<and> (se ! i = NaN \<longleftrightarrow>
                           window_length (nrows ?df) div 2 \<le> i
                         \<and> i < nrows ?df - window_length (nrows ?df) div 2
                         \<and> missing_near ec (window_length (nrows ?df)) i)
                      \<and> (sz ! i = NaN \<longleftrightarrow>
                           window_length (nrows ?df) div 2 \<le> i
                         \<and> i < nrows ?df - window_length (nrows ?df) div 2
                         \<and> missing_near rz (window_length (nrows ?df)) i)
                      \<and> (dc ! i = NaN \<longrightarrow> sd ! i = NaN)
                      \<and> (ec ! i = NaN \<longrightarrow> se ! i = NaN)
                      \<and> (rz ! i = NaN \<longrightarrow> sz ! i = NaN)))"
    by (elim exE conjE)
  have gx: "getitem df1 ''Bx_uT'' = Inr rx"
    using raw [rule_format, of "''Bx_uT''" ?bx]
    by (simp only: raw_columns_mem eleven_rows_input(3) rx simp_thms)
  have bad: "numeric_value unsigned_literal (?bx ! 5) = None"
    by (simp add: numeric_value_examples)
  have x5: "rx ! 5 = NaN"
    using coerced [rule_format, of 5 ?bx] bad by (simp add: rx)
  have vx0: "cell_value (rx ! 0) = Some 20"
    using coerced [rule_format, of 0 ?bx] by (simp add: rx)
  have vy0: "cell_value (ry ! 0) = Some 0"
    using coerced [rule_format, of 0 ?by] by (simp add: ry)
  have sf: "squares_fit rx ry 20 0"
    unfolding rx ry by (intro squares_fit_floats not_int_column_to_numeric_Num)
  have s5: "(rx ! 5 = NaN \<or> ry ! 5 = NaN \<longrightarrow> hc ! 5 = NaN)
            \<and> (dc ! 5 = NaN \<longleftrightarrow> rz ! 5 = NaN \<or> hc ! 5 = NaN)"
    using samples [rule_format, of 5] by (simp add: n)
  have h5: "hc ! 5 = NaN" using s5 x5 by simp
  have d5: "dc ! 5 = NaN" using s5 h5 by simp
  have s0: "\<forall>x y. cell_value (rx ! 0) = Some x \<and> cell_value (ry ! 0) = Some y
                       \<and> squares_fit rx ry x y \<longrightarrow> hc ! 0 = Num (hypot x y)"
    using samples [rule_format, of 0] by (simp add: n)
  have h0: "hc ! 0 = Num (hypot 20 0)"
    using s0 [rule_format, of 20 0] vx0 vy0 sf by simp
  have ok: "\<not> edge_nan (map cell_value dc) (window_length (nrows ?df))"
  proof (rule eleven_rows_dip [of unsigned_literal "Text ''bad''" "Num 40"])
    fix df1' ds
    assume d: "derive_angles unsigned_literal ?df = Inr df1'"
      and g: "getitem df1' ''Dip_Angle_deg'' = Inr (map of_float ds)"
      and l: "length ds = 11"
      and v: "\<And>i. i < 11 \<Longrightarrow>
       (ds ! i = None \<longleftrightarrow> (i = 5 \<and> numeric_value unsigned_literal (Text ''bad'') = None)
                          \<or> (i = 7 \<and> numeric_value unsigned_literal (Num 40) = None))"
    from d d1 have "df1' = df1" by simp
    with g gd have dip: "dc = map of_float ds" by simp
    have "\<And>i. i < 11 \<Longrightarrow> i \<noteq> 5 \<Longrightarrow> ds ! i \<noteq> None" by (simp add: v)
    then have "\<not> (\<exists>i<11. i \<noteq> 5 \<and> ds ! i = None)" by blast
    then have "\<not> edge_nan ds (window_length 11)"
      unfolding eleven_edges [OF l] .
    then show ?thesis unfolding dip n map_cell_value_of_float .
  qed
  have big: "10 < nrows ?df" by (simp add: n)
  from long big ok obtain df2 sd se sz where
    c2: "?calc = Inr df2" and
    gs: "getitem df2 ''Dip_Angle_smooth'' = Inr sd" and
    ls: "length sd = nrows ?df" and
    cells: "\<forall>i<nrows ?df.
                        (sd ! i = NaN \<longleftrightarrow>
                           window_length (nrows ?df) div 2 \<le> i
                         \<and> i < nrows ?df - window_length (nrows ?df) div 2
                         \<and> missing_near dc (window_length (nrows ?df)) i)
                      \<and> (se ! i = NaN \<longleftrightarrow>
                           window_length (nrows ?df) div 2 \<le> i
                         \<and> i < nrows ?df - window_length (nrows ?df) div 2
                         \<and> missing_near ec (window_length (nrows ?df)) i)
                      \<and> (sz ! i = NaN \<longleftrightarrow>
                           window_length (nrows ?df) div 2 \<le> i
                         \<and> i < nrows ?df - window_length (nrows ?df) div 2
                         \<and> missing_near rz (window_length (nrows ?df)) i)
                      \<and> (dc ! i = NaN \<longrightarrow> sd ! i = NaN)
                      \<and> (ec ! i = NaN \<longrightarrow> se ! i = NaN)
                      \<and> (rz ! i = NaN \<longrightarrow> sz ! i = NaN)"
    by blast
  have l11: "length sd = 11" by (simp only: ls n)
  have "dc ! 5 = NaN \<longrightarrow> sd ! 5 = NaN"
    using cells [rule_format, of 5] by (simp add: n)
  with d5 have sd5: "sd ! 5 = NaN" by simp
  have "sd ! 0 = NaN \<longleftrightarrow> window_length (nrows ?df) div 2 \<le> 0
           \<and> 0 < nrows ?df - window_length (nrows ?df) div 2
           \<and> missing_near dc (window_length (nrows ?df)) 0"
    using cells [rule_format, of 0] by (simp add: n)
  then have sd0: "sd ! 0 \<noteq> NaN" by (simp add: n w)
  show ?thesis
    apply (intro conjI)
      apply (rule eleven_rows_input(1))
     apply (rule eleven_rows_input(2))
    apply (rule exI [of _ df1])
    apply (rule exI [of _ df2])
    apply (rule exI [of _ rx])
    apply (rule exI [of _ hc])
    apply (rule exI [of _ dc])
    apply (rule exI [of _ sd])
    apply (intro conjI)
               apply (rule d1 gx gh gd x5 h5 d5 h0 c2 gs l11 sd5 sd0)+
    done
qed

theorem bad_sample_fatal_counterexample:
  "has_columns (eleven_rows (Num 20) (Text ''bad'')) raw_columns
   \<and> aligned (eleven_rows (Num 20) (Text ''bad''))
   \<and> nrows (eleven_rows (Num 20) (Text ''bad'')) = 11
   \<and> (\<exists>df1. derive_angles unsigned_literal (eleven_rows (Num 20) (Text ''bad'')) = Inr df1)
   \<and> calculate_magnetic_parameters unsigned_literal
        (savgol_core flat_coeffs through_samples) (eleven_rows (Num 20) (Text ''bad''))
        = Inl ValueError"
proof -
  let ?df = "eleven_rows (Num 20) (Text ''bad'')"
  let ?fit = "savgol_core flat_coeffs through_samples"
  have n: "nrows ?df = 11" by (simp add: eleven_rows_def)
  have both: "(\<exists>df1. derive_angles unsigned_literal ?df = Inr df1)
     \<and> calculate_magnetic_parameters unsigned_literal ?fit ?df = Inl ValueError"
  proof (rule calculate_cells [OF eleven_rows_input, of "Num 20" "Text ''bad''"
           unsigned_literal ?fit])
    fix df0 df1 hs ds es
    let ?bz = "[Num 40, Num 40, Num 40, Num 40, Num 40, Num 40, Num 40, Text ''bad'', Num 40,
                Num 40, Num 40]"
    assume d1: "derive_angles unsigned_literal ?df = Inr df1"
      and ld: "length ds = nrows ?df"
      and dipv: "\<And>i. i < nrows ?df \<Longrightarrow>
        ds ! i = np_degrees (np_arctan2 (numeric_value unsigned_literal (?bz ! i)) (hs ! i))"
      and cm: "calculate_magnetic_parameters unsigned_literal ?fit ?df = smooth ?fit df1"
      and s_fail: "10 < nrows ?df \<Longrightarrow> edge_nan ds (window_length (nrows ?df)) \<Longrightarrow>
         smooth ?fit df1 = Inl ValueError"
    have l: "length ds = 11" by (simp only: ld n)
    have "ds ! 7 = None"
      using dipv [of 7] by (simp add: n np_angle_None numeric_value_examples)
    then have "\<exists>i<11. i \<noteq> 5 \<and> ds ! i = None" by (intro exI [of _ 7]) simp
    then have "edge_nan ds (window_length 11)" by (simp only: eleven_edges [OF l])
    then have "smooth ?fit df1 = Inl ValueError" by (intro s_fail) (simp_all add: n)
    then have c: "calculate_magnetic_parameters unsigned_literal ?fit ?df = Inl ValueError"
      by (simp only: cm)
    from d1 have "\<exists>df1. derive_angles unsigned_literal ?df = Inr df1" by (rule exI)
    then show ?thesis using c by (rule conjI)
  qed
  show ?thesis
    apply (intro conjI)
        apply (rule eleven_rows_input(1))
       apply (rule eleven_rows_input(2))
      apply (rule n)
     apply (rule conjunct1 [OF both])
    apply (rule conjunct2 [OF both])
    done
qed

text \<open>
  C9.  Running the derivation on its own output succeeds and returns that output
  unchanged: the second run reads the same (already coerced) raw columns and stores the
  same \<open>H_uT\<close>, \<open>Dip_Angle_deg\<close> and \<open>Declination_deg\<close>.
\<close>

theorem derive_angles_idempotent:
  assumes h: "has_columns df raw_columns"
  shows "\<exists>df1 df2 hc dc ec.
           derive_angles parse df = Inr df1
         \<and> derive_angles parse df1 = Inr df2
         \<and> getitem df1 ''H_uT'' = Inr hc \<and> getitem df2 ''H_uT'' = Inr hc
         \<and> getitem df1 ''Dip_Angle_deg'' = Inr dc \<and> getitem df2 ''Dip_Angle_deg'' = Inr dc
         \<and> getitem df1 ''Declination_deg'' = Inr ec \<and> getitem df2 ''Declination_deg'' = Inr ec
         \<and> df2 = df1"
proof -
  from has_columnsD [OF h raw_columns_mem(2)] obtain cbx where gx: "getitem df ''Bx_uT'' = Inr cbx" ..
  from has_columnsD [OF h raw_columns_mem(3)] obtain cby where gy: "getitem df ''By_uT'' = Inr cby" ..
  from has_columnsD [OF h raw_columns_mem(4)] obtain cbz where gz: "getitem df ''Bz_uT'' = Inr cbz" ..
  show ?thesis
  proof (rule derive_angles_result [OF h gx gy gz, of parse])
    fix df0 X Y Z
    assume g: "\<And>k. getitem df0 k =
            (if k \<in> set raw_columns
             then (case getitem df k of Inl e \<Rightarrow> Inl e | Inr c \<Rightarrow> Inr (to_numeric parse c))
             else getitem df k)"
      and aX: "array_column df0 ''Bx_uT'' = Inr X"
      and aY: "array_column df0 ''By_uT'' = Inr Y"
      and aZ: "array_column df0 ''Bz_uT'' = Inr Z"
      and d: "derive_angles parse df =
           Inr (setitem (setitem (setitem df0
                  ''H_uT'' (map of_float (horizontal X Y)))
                  ''Dip_Angle_deg'' (map of_float (angle_deg Z (Float64 (horizontal X Y)))))
                  ''Declination_deg'' (map of_float (angle_deg Y X)))"
    define df1 where "df1 = setitem (setitem (setitem df0
                  ''H_uT'' (map of_float (horizontal X Y)))
                  ''Dip_Angle_deg'' (map of_float (angle_deg Z (Float64 (horizontal X Y)))))
                  ''Declination_deg'' (map of_float (angle_deg Y X))"
    have d1: "derive_angles parse df = Inr df1" using d by (simp only: df1_def)
    have raw: "\<And>k. k \<in> set raw_columns \<Longrightarrow>
                 \<exists>c. getitem df1 k = Inr c \<and> to_numeric parse c = c"
    proof -
      fix k assume k: "k \<in> set raw_columns"
      from has_columnsD [OF h k] obtain c where c: "getitem df k = Inr c" ..
      have "getitem df1 k = getitem df0 k"
        using raw_not_derived [OF k] by (simp add: df1_def)
      also have "\<dots> = Inr (to_numeric parse c)" using k c by (simp add: g)
      finally have "getitem df1 k = Inr (to_numeric parse c)" .
      moreover have "to_numeric parse (to_numeric parse c) = to_numeric parse c" by simp
      ultimately show "\<exists>c. getitem df1 k = Inr c \<and> to_numeric parse c = c" by (intro exI conjI)
    qed
    then have "list_all (\<lambda>k. \<exists>c. getitem df1 k = Inr c \<and> to_numeric parse c = c) raw_columns"
      by (simp only: list_all_iff) (rule ballI)
    then have fixed: "coerce_columns parse raw_columns df1 = Inr df1"
      by (rule coerce_columns_fixed)
    have gh: "getitem df1 ''H_uT'' = Inr (map of_float (horizontal X Y))"
      by (simp add: df1_def)
    have gd: "getitem df1 ''Dip_Angle_deg''
                = Inr (map of_float (angle_deg Z (Float64 (horizontal X Y))))"
      by (simp add: df1_def)
    have ge: "getitem df1 ''Declination_deg'' = Inr (map of_float (angle_deg Y X))"
      by (simp add: df1_def)
    have X: "array_column df1 ''Bx_uT'' = Inr X" by (simp add: df1_def aX)
    have Y: "array_column df1 ''By_uT'' = Inr Y" by (simp add: df1_def aY)
    have Z: "array_column df1 ''Bz_uT'' = Inr Z" by (simp add: df1_def aZ)
    have "derive_angles parse df1 =
           Inr (setitem (setitem (setitem df1
                  ''H_uT'' (map of_float (horizontal X Y)))
                  ''Dip_Angle_deg'' (map of_float (angle_deg Z (Float64 (horizontal X Y)))))
                  ''Declination_deg'' (map of_float (angle_deg Y X)))"
      by (rule derive_angles_expand [OF fixed X Y Z])
    then have d2: "derive_angles parse df1 = Inr df1"
      by (simp only: setitem_triv [OF gh] setitem_triv [OF gd] setitem_triv [OF ge])
    show ?thesis
      apply (rule exI [of _ df1])
      apply (rule exI [of _ df1])
      apply (intro exI conjI)
              apply (rule d1)
             apply (rule d2)
            apply (rule gh)
           apply (rule gh)
          apply (rule gd)
         apply (rule gd)
        apply (rule ge)
       apply (rule ge)
      apply (rule refl)
      done
  qed
qed

theorem derive_angles_idempotent_witness:
  "has_columns two_samples raw_columns
   \<and> (\<exists>df1 df2 hc dc ec.
         derive_angles unsigned_literal two_samples = Inr df1
       \<and> derive_angles unsigned_literal df1 = Inr df2
       \<and> getitem df1 ''H_uT'' = Inr hc \<and> getitem df2 ''H_uT'' = Inr hc
       \<and> getitem df1 ''Dip_Angle_deg'' = Inr dc \<and> getitem df2 ''Dip_Angle_deg'' = Inr dc
       \<and> getitem df1 ''Declination_deg'' = Inr ec \<and> getitem df2 ''Declination_deg'' = Inr ec
       \<and> df2 = df1)"
  apply (rule conjI)
   apply (rule two_samples_input(1))
  apply (rule derive_angles_idempotent [OF two_samples_input(1)])
  done

text \<open>
  C10.  For every \<open>n > 10\<close> the window is odd, lies between 5 and 21 and does not exceed
  \<open>n\<close>, so the filter is never called with a window longer than the series; the branch for
  a window below 5 is never taken; and the filter is applied exactly when \<open>n > 10\<close>.
\<close>

theorem window_always_valid:
  "(10 < n \<longrightarrow> odd (window_length n) \<and> 5 \<le> window_length n \<and> window_length n \<le> 21
                \<and> window_length n \<le> n \<and> \<not> n < window_length n
                \<and> select_branch n = Smoothed (window_length n))
   \<and> select_branch n \<noteq> WindowTooSmall
   \<and> ((\<exists>w. select_branch n = Smoothed w) \<longleftrightarrow> 10 < n)"
proof (intro conjI impI)
  assume n: "10 < n"
  show "odd (window_length n)" using n by (rule window_length_odd)
  show "5 \<le> window_length n" using window_length_bounds [of n] by simp
  show "window_length n \<le> 21" using window_length_bounds [of n] by simp
  show "window_length n \<le> n" using n by (rule window_length_le)
  then show "\<not> n < window_length n" by simp
  show "select_branch n = Smoothed (window_length n)" using n by (simp add: select_branch_eq)
next
  show "select_branch n \<noteq> WindowTooSmall" by (simp add: select_branch_eq)
  show "(\<exists>w. select_branch n = Smoothed w) \<longleftrightarrow> 10 < n" by (simp add: select_branch_eq)
qed

theorem window_always_valid_witness:
  "(10::nat) < 11 \<and> odd (window_length 11) \<and> 5 \<le> window_length 11 \<and> window_length 11 \<le> 11
     \<and> select_branch 11 = Smoothed (window_length 11) \<and> window_length 11 = 5"
proof -
  have w: "window_length 11 = 5" by (simp add: window_length_def)
  from window_always_valid [of 11] w show ?thesis by simp
qed

end
